theory Spec2Isabelle
  imports Main "HOL-Library.Sublist"
begin

section \<open>The values \<open>json.loads\<close> returns\<close>

text \<open>
  \<open>arkhamdb.py\<close> has one working function, \<open>read_cards_json\<close>. It reads
  \<open>data_extract/all_cards.json\<close>, parses it with \<open>json.loads\<close>, builds one row of a
  pandas table per element of the parsed value and writes the table to
  \<open>arkham_horror_card_data.parquet\<close>.

  The parsed document is a Python object. A \<open>dict\<close> is an association list in insertion
  order, which is the order \<open>for key in card\<close> visits (Python 3.7 and later);
  \<open>json.loads\<close> only builds dicts whose keys are strings, each key once. A
  \<open>float\<close> is carried as the text \<open>repr\<close> gives for it: the program does nothing
  with a number but call \<open>str\<close> on it or store it. A \<open>str\<close> is a \<open>string\<close> whose
  characters stand for the code points 0 to 255.

  The exceptions are those of the built-ins; \<open>ArrowError\<close> stands for the exceptions
  pyarrow raises when it cannot give a column a type.
\<close>

datatype pyval =
    PNone
  | PBool bool
  | PInt int
  | PFloat string
  | PStr string
  | PList "pyval list"
  | PDict "(string \<times> pyval) list"

datatype error =
    FileNotFoundError
  | JSONDecodeError
  | TypeError
  | KeyError
  | IndexError
  | ValueError
  | OverflowError
  | ArrowError

section \<open>Built-ins the function calls\<close>

subsection \<open>\<open>str\<close> and \<open>repr\<close>\<close>

definition digit_char :: "nat \<Rightarrow> char" where
  "digit_char d = char_of (48 + d)"

fun str_nat :: "nat \<Rightarrow> string" where
  "str_nat n = (if n < 10 then [digit_char n] else str_nat (n div 10) @ [digit_char (n mod 10)])"

declare str_nat.simps [simp del]

definition str_int :: "int \<Rightarrow> string" where
  "str_int i = (if i < 0 then CHR ''-'' # str_nat (nat (- i)) else str_nat (nat i))"

definition hex_char :: "nat \<Rightarrow> char" where
  "hex_char d = (if d < 10 then char_of (48 + d) else char_of (87 + d))"

text \<open>
  \<open>str.isprintable\<close> on the code points below 256: the controls, DEL, the C1 block,
  the no-break space and the soft hyphen are not printable.
\<close>

definition printable :: "char \<Rightarrow> bool" where
  "printable c = (let n = (of_char c :: nat) in
     (32 \<le> n \<and> n < 127) \<or> (161 \<le> n \<and> n \<noteq> 173))"

text \<open>
  \<open>repr\<close> of a string (\<open>unicode_repr\<close>): double quotes when the string has a single
  quote and no double quote, single quotes otherwise; the chosen quote and the backslash
  are escaped, tab, newline and carriage return are written \<open>\t\<close>, \<open>\n\<close>, \<open>\r\<close>,
  and any other unprintable character as \<open>\xhh\<close>.
\<close>

definition repr_quote :: "string \<Rightarrow> char" where
  "repr_quote s =
     (if CHR 0x27 \<in> set s \<and> CHR 0x22 \<notin> set s then CHR 0x22 else CHR 0x27)"

definition repr_char :: "char \<Rightarrow> char \<Rightarrow> string" where
  "repr_char q c =
     (if c = q \<or> c = CHR 0x5C then [CHR 0x5C, c]
      else if c = CHR 0x09 then [CHR 0x5C, CHR ''t'']
      else if c = CHR 0x0A then [CHR 0x5C, CHR ''n'']
      else if c = CHR 0x0D then [CHR 0x5C, CHR ''r'']
      else if printable c then [c]
      else [CHR 0x5C, CHR ''x'', hex_char (of_char c div 16), hex_char (of_char c mod 16)])"

definition repr_str :: "string \<Rightarrow> string" where
  "repr_str s = (let q = repr_quote s in q # concat (map (repr_char q) s) @ [q])"

fun join :: "string \<Rightarrow> string list \<Rightarrow> string" where
  "join sep [] = []"
| "join sep [x] = x"
| "join sep (x # y # ys) = x @ sep @ join sep (y # ys)"

fun py_repr :: "pyval \<Rightarrow> string" where
  "py_repr PNone = ''None''"
| "py_repr (PBool b) = (if b then ''True'' else ''False'')"
| "py_repr (PInt i) = str_int i"
| "py_repr (PFloat r) = r"
| "py_repr (PStr s) = repr_str s"
| "py_repr (PList xs) = ''['' @ join '', '' (map py_repr xs) @ '']''"
| "py_repr (PDict kvs) =
     ''{'' @ join '', '' (map (\<lambda>kv. repr_str (fst kv) @ '': '' @ py_repr (snd kv)) kvs) @ ''}''"

text \<open>\<open>str(x)\<close> is \<open>x\<close> itself for a string and \<open>repr(x)\<close> for everything else.\<close>

fun py_str :: "pyval \<Rightarrow> string" where
  "py_str (PStr s) = s"
| "py_str v = py_repr v"

subsection \<open>\<open>str.replace\<close> and \<open>str.strip\<close>\<close>

text \<open>
  \<open>s.replace(old, new)\<close> scans \<open>s\<close> once from the left and replaces each occurrence of
  \<open>old\<close> it meets, continuing after the occurrence; what it has written is never
  scanned again. With an empty \<open>old\<close> it puts \<open>new\<close> before every character and at
  the end.
\<close>

function py_replace :: "string \<Rightarrow> string \<Rightarrow> string \<Rightarrow> string" where
  "py_replace [] old new = (if old = [] then new else [])"
| "py_replace (c # cs) old new =
     (if old = [] then new @ concat (map (\<lambda>x. x # new) (c # cs))
      else if prefix old (c # cs) then new @ py_replace (drop (length old) (c # cs)) old new
      else c # py_replace cs old new)"
  by pat_completeness auto
termination
  by (relation "measure (\<lambda>(s, old, new). length s)") auto

text \<open>\<open>str.isspace\<close> on the code points below 256.\<close>

definition isspace :: "char \<Rightarrow> bool" where
  "isspace c = (let n = (of_char c :: nat) in
     (9 \<le> n \<and> n \<le> 13) \<or> (28 \<le> n \<and> n \<le> 32) \<or> n = 133 \<or> n = 160)"

definition lstrip :: "string \<Rightarrow> string" where
  "lstrip s = dropWhile isspace s"

definition rstrip :: "string \<Rightarrow> string" where
  "rstrip s = rev (dropWhile isspace (rev s))"

definition strip :: "string \<Rightarrow> string" where
  "strip s = rstrip (lstrip s)"

subsection \<open>\<open>len\<close>, iteration and subscription\<close>

fun py_len :: "pyval \<Rightarrow> error + nat" where
  "py_len (PList xs) = Inr (length xs)"
| "py_len (PDict kvs) = Inr (length kvs)"
| "py_len (PStr s) = Inr (length s)"
| "py_len v = Inl TypeError"

text \<open>What a \<open>for\<close> loop over the value visits; a value that is not iterable raises.\<close>

fun py_iter :: "pyval \<Rightarrow> error + pyval list" where
  "py_iter (PList xs) = Inr xs"
| "py_iter (PDict kvs) = Inr (map (\<lambda>kv. PStr (fst kv)) kvs)"
| "py_iter (PStr s) = Inr (map (\<lambda>c. PStr [c]) s)"
| "py_iter v = Inl TypeError"

text \<open>A sequence index: negative indices count from the end, out of range raises.\<close>

definition seq_index :: "'a list \<Rightarrow> int \<Rightarrow> error + 'a" where
  "seq_index xs i =
     (if 0 \<le> i \<and> i < int (length xs) then Inr (xs ! nat i)
      else if i < 0 \<and> - int (length xs) \<le> i then Inr (xs ! nat (int (length xs) + i))
      else Inl IndexError)"

text \<open>
  \<open>obj[key]\<close>. A dict is looked up by key: its keys are strings, so a string finds its
  entry or raises \<open>KeyError\<close>, a list or dict is unhashable, and any other key is absent.
  A list or a string takes an integer (\<open>bool\<close> is a subclass of \<open>int\<close>) and raises
  \<open>TypeError\<close> on anything else. Nothing else is subscriptable.
\<close>

fun py_getitem :: "pyval \<Rightarrow> pyval \<Rightarrow> error + pyval" where
  "py_getitem (PDict kvs) (PStr k) =
     (case map_of kvs k of None \<Rightarrow> Inl KeyError | Some v \<Rightarrow> Inr v)"
| "py_getitem (PDict kvs) (PList ys) = Inl TypeError"
| "py_getitem (PDict kvs) (PDict ys) = Inl TypeError"
| "py_getitem (PDict kvs) key = Inl KeyError"
| "py_getitem (PList xs) (PInt i) = seq_index xs i"
| "py_getitem (PList xs) (PBool b) = seq_index xs (if b then 1 else 0)"
| "py_getitem (PList xs) key = Inl TypeError"
| "py_getitem (PStr s) (PInt i) =
     (case seq_index s i of Inl e \<Rightarrow> Inl e | Inr c \<Rightarrow> Inr (PStr [c]))"
| "py_getitem (PStr s) (PBool b) =
     (case seq_index s (if b then 1 else 0) of Inl e \<Rightarrow> Inl e | Inr c \<Rightarrow> Inr (PStr [c]))"
| "py_getitem (PStr s) key = Inl TypeError"
| "py_getitem obj key = Inl TypeError"

section \<open>pandas and pyarrow\<close>

text \<open>
  What pandas holds in a column and what pyarrow writes for it is fixed here for two kinds
  of cell, where it does not depend on the versions installed: a string stays the string,
  and an integer that fits 64 bits stays the integer. Everything else is the library's
  business (pandas turns an integer into a float once a float follows in its column,
  pyarrow raises \<open>OverflowError\<close> on a larger integer and writes \<open>NaN\<close> as null, and so
  on) and is a parameter of the development: \<open>retype\<close> gives the cells of a column after
  an object was appended to it, \<open>reassign\<close> its cells after the rows at some positions
  were overwritten, \<open>arrow\<close> the values written for a column, each by position, or the
  exception raised. Nothing is assumed about the three.
\<close>

record library =
  retype :: "pyval list \<Rightarrow> pyval \<Rightarrow> error + (nat \<Rightarrow> pyval)"
  reassign :: "pyval list \<Rightarrow> nat list \<Rightarrow> pyval \<Rightarrow> error + (nat \<Rightarrow> pyval)"
  arrow :: "pyval list \<Rightarrow> error + (nat \<Rightarrow> pyval)"

fun is_str :: "pyval \<Rightarrow> bool" where
  "is_str (PStr s) = True"
| "is_str v = False"

fun is_int64 :: "pyval \<Rightarrow> bool" where
  "is_int64 (PInt i) = (- (2 ^ 63) \<le> i \<and> i < 2 ^ 63)"
| "is_int64 v = False"

definition plain :: "pyval \<Rightarrow> bool" where
  "plain v = (is_str v \<or> is_int64 v)"

text \<open>
  A \<open>DataFrame\<close> is its column names, its index labels and its columns, each the list of
  the cells pandas holds, one per label.
\<close>

record dataframe =
  columns :: "string list"
  index :: "nat list"
  data :: "pyval list list"

definition DataFrame :: "string list \<Rightarrow> dataframe" where
  "DataFrame cols = \<lparr>columns = cols, index = [], data = map (\<lambda>c. []) cols\<rparr>"

text \<open>
  Appending one object to a column. A column of strings and 64-bit integers that gets one
  more of them holds the objects as they are (as \<open>int64\<close> while all are integers, as
  \<open>object\<close> otherwise); any other column is retyped by pandas.
\<close>

definition append_cell :: "library \<Rightarrow> pyval list \<Rightarrow> pyval \<Rightarrow> error + pyval list" where
  "append_cell lib col x =
     (if list_all plain col \<and> plain x then Inr (col @ [x])
      else (case retype lib col x of
              Inl e \<Rightarrow> Inl e
            | Inr cell \<Rightarrow> Inr (map cell [0..<Suc (length col)])))"

definition overwrite_cells :: "library \<Rightarrow> nat list \<Rightarrow> pyval list \<Rightarrow> pyval \<Rightarrow> error + pyval list" where
  "overwrite_cells lib positions col x =
     (case reassign lib col positions x of
        Inl e \<Rightarrow> Inl e
      | Inr cell \<Rightarrow> Inr (map cell [0..<length col]))"

text \<open>A row is set column by column, its first cell in the first column.\<close>

fun set_row ::
  "(pyval list \<Rightarrow> pyval \<Rightarrow> error + pyval list) \<Rightarrow> pyval list list \<Rightarrow> pyval list \<Rightarrow> error + pyval list list"
where
  "set_row f [] [] = Inr []"
| "set_row f (col # cols) (x # xs) =
     (case f col x of
        Inl e \<Rightarrow> Inl e
      | Inr col' \<Rightarrow> (case set_row f cols xs of Inl e \<Rightarrow> Inl e | Inr cols' \<Rightarrow> Inr (col' # cols')))"
| "set_row f cols xs = Inl ValueError"

text \<open>
  \<open>df.loc[label] = row\<close>: a row of the wrong width raises; a label the index already
  has overwrites the rows under it; a new label appends the row under that label.
\<close>

definition loc_setitem :: "library \<Rightarrow> dataframe \<Rightarrow> nat \<Rightarrow> pyval list \<Rightarrow> error + dataframe" where
  "loc_setitem lib df label row =
     (if length row \<noteq> length (columns df) then Inl ValueError
      else if label \<in> set (index df) then
        (case set_row (overwrite_cells lib [i \<leftarrow> [0..<length (index df)]. index df ! i = label])
                (data df) row of
           Inl e \<Rightarrow> Inl e
         | Inr cols \<Rightarrow> Inr (df\<lparr>data := cols\<rparr>))
      else
        (case set_row (append_cell lib) (data df) row of
           Inl e \<Rightarrow> Inl e
         | Inr cols \<Rightarrow> Inr (df\<lparr>index := index df @ [label], data := cols\<rparr>)))"

text \<open>
  pyarrow types each column before anything is written. A column of strings is written
  as it is, and so is a column of 64-bit integers; a column that holds both raises; any
  other column is the library's.
\<close>

definition write_column :: "library \<Rightarrow> pyval list \<Rightarrow> error + pyval list" where
  "write_column lib col =
     (if list_all is_str col \<or> list_all is_int64 col then Inr col
      else if list_all plain col then Inl ArrowError
      else (case arrow lib col of
              Inl e \<Rightarrow> Inl e
            | Inr cell \<Rightarrow> Inr (map cell [0..<length col])))"

fun write_columns :: "library \<Rightarrow> pyval list list \<Rightarrow> error + pyval list list" where
  "write_columns lib [] = Inr []"
| "write_columns lib (col # cols) =
     (case write_column lib col of
        Inl e \<Rightarrow> Inl e
      | Inr w \<Rightarrow> (case write_columns lib cols of Inl e \<Rightarrow> Inl e | Inr ws \<Rightarrow> Inr (w # ws)))"

text \<open>The rows of a table of \<open>n\<close> rows given by its columns.\<close>

definition rows_of :: "nat \<Rightarrow> pyval list list \<Rightarrow> pyval list list" where
  "rows_of n cols = map (\<lambda>i. map (\<lambda>col. col ! i) cols) [0..<n]"

text \<open>
  \<open>df.to_parquet(path, index=index)\<close> converts the table, which can raise, and then
  stores the column names and the rows, and the index labels only when \<open>index\<close> is true.
  A destination that cannot be written is outside this development.
\<close>

record parquet =
  pq_columns :: "string list"
  pq_index :: "nat list option"
  pq_rows :: "pyval list list"

definition to_parquet :: "library \<Rightarrow> dataframe \<Rightarrow> bool \<Rightarrow> error + parquet" where
  "to_parquet lib df with_index =
     (case write_columns lib (data df) of
        Inl e \<Rightarrow> Inl e
      | Inr cols \<Rightarrow>
          Inr \<lparr>pq_columns = columns df,
               pq_index = (if with_index then Some (index df) else None),
               pq_rows = rows_of (length (index df)) cols\<rparr>)"

section \<open>The two files\<close>

text \<open>
  The file at \<open>JSON_DATA\<close> is missing, or holds text \<open>json.loads\<close> rejects, with the
  exception raised (\<open>JSONDecodeError\<close>, or plain \<open>ValueError\<close> for an integer of more
  digits than \<open>int\<close> converts), or holds a document, given as the value \<open>json.loads\<close>
  returns for it. The parquet file exists or not.
\<close>

datatype json_file = Missing | Rejected error | Document pyval

record files =
  json_data :: json_file
  parquet_file :: "parquet option"

text \<open>\<open>with open(JSON_DATA,'r') as file: card_data=json.loads(file.read())\<close>\<close>

fun load_json :: "json_file \<Rightarrow> error + pyval" where
  "load_json Missing = Inl FileNotFoundError"
| "load_json (Rejected e) = Inl e"
| "load_json (Document v) = Inr v"

section \<open>\<open>read_cards_json\<close>\<close>

definition excluded_keys :: "string list" where
  "excluded_keys =
     [''deck_requirements'', ''deck_options'', ''double_sided'', ''octgn_id'', ''url'',
      ''imagesrc'', ''backimagesrc'', ''duplicated_by'', ''alternated_by'',
      ''illustrator'', ''errata_date'', ''restrictions'', ''spoiler'']"

text \<open>
  \<open>key not in [...]\<close> compares \<open>key\<close> with each name by \<open>==\<close>; a key that is not a
  string equals none of them.
\<close>

fun not_in_excluded :: "pyval \<Rightarrow> bool" where
  "not_in_excluded (PStr k) = (k \<notin> set excluded_keys)"
| "not_in_excluded key = True"

text \<open>\<open>value.replace('<b>','').replace('</b>','').strip()\<close>\<close>

definition clean_value :: "string \<Rightarrow> string" where
  "clean_value v = strip (py_replace (py_replace v ''<b>'' []) ''</b>'' [])"

text \<open>
  The loop \<open>for key in card\<close>, over the keys still to visit. \<open>", "+key\<close> raises
  \<open>TypeError\<close> when \<open>key\<close> is not a string. The source's variable \<open>card\<close> is
  written \<open>crd\<close> and its \<open>card_text\<close> is \<open>ctext\<close>.
\<close>

fun text_loop :: "pyval \<Rightarrow> pyval list \<Rightarrow> string \<Rightarrow> error + string" where
  "text_loop crd [] ctext = Inr ctext"
| "text_loop crd (key # keys) ctext =
     (if not_in_excluded key then
        (case py_getitem crd key of
           Inl e \<Rightarrow> Inl e
         | Inr item \<Rightarrow>
             (case key of
                PStr k \<Rightarrow>
                  text_loop crd keys (ctext @ '', '' @ k @ '' : '' @ clean_value (py_str item))
              | _ \<Rightarrow> Inl TypeError))
      else text_loop crd keys ctext)"

definition card_text :: "pyval \<Rightarrow> error + string" where
  "card_text crd =
     (case py_iter crd of
        Inl e \<Rightarrow> Inl e
      | Inr keys \<Rightarrow> text_loop crd keys ''Game Name : Arkham Horror'')"

text \<open>The row \<open>['Arkham Horror',card['pack_name'],card['code'],card_text]\<close> of one card.\<close>

definition card_row :: "pyval \<Rightarrow> error + pyval list" where
  "card_row crd =
     (case card_text crd of
        Inl e \<Rightarrow> Inl e
      | Inr t \<Rightarrow>
          (case py_getitem crd (PStr ''pack_name'') of
             Inl e \<Rightarrow> Inl e
           | Inr pack \<Rightarrow>
               (case py_getitem crd (PStr ''code'') of
                  Inl e \<Rightarrow> Inl e
                | Inr code \<Rightarrow> Inr [PStr ''Arkham Horror'', pack, code, PStr t])))"

text \<open>The loop \<open>for i in range(len(card_data))\<close>, over the indices still to visit.\<close>

fun rows_loop :: "library \<Rightarrow> pyval \<Rightarrow> nat list \<Rightarrow> dataframe \<Rightarrow> error + dataframe" where
  "rows_loop lib card_data [] df = Inr df"
| "rows_loop lib card_data (i # idxs) df =
     (case py_getitem card_data (PInt (int i)) of
        Inl e \<Rightarrow> Inl e
      | Inr crd \<Rightarrow>
          (case card_row crd of
             Inl e \<Rightarrow> Inl e
           | Inr row \<Rightarrow>
               (case loc_setitem lib df (length (index df)) row of
                  Inl e \<Rightarrow> Inl e
                | Inr df' \<Rightarrow> rows_loop lib card_data idxs df')))"

text \<open>The table in memory when the loop has ended.\<close>

definition build_table :: "library \<Rightarrow> pyval \<Rightarrow> error + dataframe" where
  "build_table lib card_data =
     (case py_len card_data of
        Inl e \<Rightarrow> Inl e
      | Inr n \<Rightarrow>
          rows_loop lib card_data [0..<n]
            (DataFrame [''game_name'', ''expansion'', ''id'', ''text'']))"

text \<open>
  A run with the libraries as given: the exception that ended it, if any, and the files as
  it leaves them. The only write is
  \<open>df.to_parquet('arkham_horror_card_data.parquet',index=False)\<close>, the last statement.
\<close>

definition read_cards_json :: "library \<Rightarrow> files \<Rightarrow> error option \<times> files" where
  "read_cards_json lib fs =
     (case load_json (json_data fs) of
        Inl e \<Rightarrow> (Some e, fs)
      | Inr card_data \<Rightarrow>
          (case build_table lib card_data of
             Inl e \<Rightarrow> (Some e, fs)
           | Inr df \<Rightarrow>
               (case to_parquet lib df False of
                  Inl e \<Rightarrow> (Some e, fs)
                | Inr pq \<Rightarrow> (None, fs\<lparr>parquet_file := Some pq\<rparr>))))"

section \<open>Notions the properties are stated with\<close>

text \<open>
  A card the loop accepts: an object that has the keys \<open>pack_name\<close> and \<open>code\<close>.
  \<open>card_with P\<close> asks in addition that the two values satisfy \<open>P\<close>.
\<close>

fun valid_card :: "pyval \<Rightarrow> bool" where
  "valid_card (PDict kvs) = (''pack_name'' \<in> set (map fst kvs) \<and> ''code'' \<in> set (map fst kvs))"
| "valid_card v = False"

definition field_is :: "(pyval \<Rightarrow> bool) \<Rightarrow> (string \<times> pyval) list \<Rightarrow> string \<Rightarrow> bool" where
  "field_is P kvs k = (case map_of kvs k of None \<Rightarrow> False | Some v \<Rightarrow> P v)"

fun card_with :: "(pyval \<Rightarrow> bool) \<Rightarrow> pyval \<Rightarrow> bool" where
  "card_with P (PDict kvs) = (field_is P kvs ''pack_name'' \<and> field_is P kvs ''code'')"
| "card_with P v = False"

text \<open>
  The values the cards of an array have under a key, and a column pyarrow gives a type
  whatever the library: all strings, or all 64-bit integers.
\<close>

definition card_value :: "string \<Rightarrow> pyval \<Rightarrow> pyval option" where
  "card_value k crd = (case crd of PDict kvs \<Rightarrow> map_of kvs k | _ \<Rightarrow> None)"

definition values_of :: "string \<Rightarrow> pyval list \<Rightarrow> pyval list" where
  "values_of k cards = List.map_filter (card_value k) cards"

definition uniform :: "pyval list \<Rightarrow> bool" where
  "uniform col = (list_all is_str col \<or> list_all is_int64 col)"

text \<open>One pass of the outer loop up to the row: \<open>card=card_data[i]\<close> and the row of that card.\<close>

definition row_at :: "pyval \<Rightarrow> nat \<Rightarrow> error + pyval list" where
  "row_at card_data i =
     (case py_getitem card_data (PInt (int i)) of Inl e \<Rightarrow> Inl e | Inr crd \<Rightarrow> card_row crd)"

text \<open>A column after the objects of a list were appended to it one by one.\<close>

fun appended :: "library \<Rightarrow> pyval list \<Rightarrow> pyval list \<Rightarrow> error + pyval list" where
  "appended lib col [] = Inr col"
| "appended lib col (x # xs) =
     (case append_cell lib col x of Inl e \<Rightarrow> Inl e | Inr col' \<Rightarrow> appended lib col' xs)"

text \<open>The form of every row the loop sets.\<close>

definition shaped :: "pyval list \<Rightarrow> bool" where
  "shaped row = (\<exists>p c t. row = [PStr ''Arkham Horror'', p, c, PStr t])"

text \<open>
  A string in which a tag stands glued behind an unfinished tag: one of \<open><\<close>, \<open><b\<close>,
  \<open></\<close>, \<open></b\<close> with \<open><b>\<close> or \<open></b>\<close> directly after it. Only there can the
  removal of a tag put a new tag together.
\<close>

definition glued :: "string \<Rightarrow> bool" where
  "glued s = list_ex (\<lambda>p. sublist p s)
     [''<<b>'', ''<b<b>'', ''</<b>'', ''</b<b>'', ''<</b>'', ''<b</b>'', ''</</b>'', ''</b</b>'']"



text \<open>
  The examples below are closed terms and so name a library: this one, which raises
  \<open>TypeError\<close> whenever it is asked. Every example keeps to strings and 64-bit integers,
  never comes to ask it, and holds for any other library as well.
\<close>

definition unsupported :: library where
  "unsupported =
     \<lparr>retype = (\<lambda>col x. Inl TypeError),
      reassign = (\<lambda>col positions x. Inl TypeError),
      arrow = (\<lambda>col. Inl TypeError)\<rparr>"

section \<open>The inner loop\<close>

text \<open>
  The loop over the keys only ever appends to the text. On an object it cannot fail, since
  every key it visits is a key of the object, and it adds one fragment per key that is
  kept.
\<close>

lemma text_loop_append:
  "text_loop crd (ks1 @ ks2) ctext =
     (case text_loop crd ks1 ctext of Inl e \<Rightarrow> Inl e | Inr t \<Rightarrow> text_loop crd ks2 t)"
  by (induction ks1 arbitrary: ctext) (auto split: sum.splits pyval.splits)

lemma text_loop_prefix: "text_loop crd keys ctext = Inr t \<Longrightarrow> prefix ctext t"
proof (induction keys arbitrary: ctext)
  case Nil
  then show ?case by simp
next
  case (Cons key keys)
  show ?case
  proof (cases "not_in_excluded key")
    case False
    with Cons show ?thesis by simp
  next
    case True
    with Cons.prems obtain item k where k: "key = PStr k"
      and run: "text_loop crd keys (ctext @ '', '' @ k @ '' : '' @ clean_value (py_str item)) = Inr t"
      by (auto split: sum.splits pyval.splits)
    from Cons.IH [OF run] show ?thesis
      by (rule append_prefixD)
  qed
qed

lemma text_loop_dict:
  assumes "\<forall>kv \<in> set rest. map_of kvs (fst kv) = Some (snd kv)"
  shows "text_loop (PDict kvs) (map (\<lambda>kv. PStr (fst kv)) rest) ctext =
     Inr (ctext @ concat (map (\<lambda>kv. '', '' @ fst kv @ '' : '' @ clean_value (py_str (snd kv)))
       (filter (\<lambda>kv. fst kv \<notin> set excluded_keys) rest)))"
  using assms by (induction rest arbitrary: ctext) auto

lemma card_text_dict:
  assumes "distinct (map fst kvs)"
  shows "card_text (PDict kvs) =
     Inr (''Game Name : Arkham Horror'' @
       concat (map (\<lambda>kv. '', '' @ fst kv @ '' : '' @ clean_value (py_str (snd kv)))
         (filter (\<lambda>kv. fst kv \<notin> set excluded_keys) kvs)))"
proof -
  have "\<forall>kv \<in> set kvs. map_of kvs (fst kv) = Some (snd kv)"
    using assms by auto
  then show ?thesis
    unfolding card_text_def by (simp add: text_loop_dict)
qed

lemma text_loop_dict_total:
  assumes "set rest \<subseteq> set kvs"
  shows "\<exists>t. text_loop (PDict kvs) (map (\<lambda>kv. PStr (fst kv)) rest) ctext = Inr t"
  using assms
proof (induction rest arbitrary: ctext)
  case Nil
  then show ?case by simp
next
  case (Cons kv rest)
  from Cons.prems have "fst kv \<in> fst ` set kvs" by auto
  then have "map_of kvs (fst kv) \<noteq> None" by (simp add: map_of_eq_None_iff)
  then obtain v where "map_of kvs (fst kv) = Some v" by blast
  with Cons show ?case by simp
qed

lemma card_text_dict_total: "\<exists>t. card_text (PDict kvs) = Inr t"
  unfolding card_text_def using text_loop_dict_total [of kvs kvs] by simp

lemma card_text_prefix: "card_text crd = Inr t \<Longrightarrow> prefix ''Game Name : Arkham Horror'' t"
  unfolding card_text_def by (auto split: sum.splits dest: text_loop_prefix)

lemma text_loop_cong:
  assumes "\<forall>k. k \<notin> set excluded_keys \<longrightarrow> map_of kvs k = map_of kvs' k"
  shows "text_loop (PDict kvs) keys ctext = text_loop (PDict kvs') keys ctext"
proof (induction keys arbitrary: ctext)
  case Nil
  show ?case by simp
next
  case (Cons key keys)
  show ?case
  proof (cases key)
    case (PStr k)
    with assms Cons show ?thesis
      by (cases "k \<in> set excluded_keys") (simp_all split: option.splits)
  qed (simp_all add: Cons)
qed

lemma card_row_Inr:
  assumes "card_row crd = Inr row"
  shows "\<exists>kvs p c t. crd = PDict kvs \<and> map_of kvs ''pack_name'' = Some p
     \<and> map_of kvs ''code'' = Some c \<and> card_text crd = Inr t
     \<and> row = [PStr ''Arkham Horror'', p, c, PStr t]"
proof (cases crd)
  case (PDict kvs)
  with assms show ?thesis
    unfolding card_row_def by (auto split: sum.splits option.splits)
qed (use assms in \<open>auto simp: card_row_def split: sum.splits\<close>)

lemma card_row_valid:
  assumes "valid_card crd"
  shows "\<exists>row. card_row crd = Inr row"
proof (cases crd)
  case (PDict kvs)
  with assms have "map_of kvs ''pack_name'' \<noteq> None" "map_of kvs ''code'' \<noteq> None"
    by (simp_all add: map_of_eq_None_iff)
  then obtain p c where "map_of kvs ''pack_name'' = Some p" "map_of kvs ''code'' = Some c"
    by blast
  moreover obtain t where "card_text (PDict kvs) = Inr t"
    using card_text_dict_total by blast
  ultimately show ?thesis
    using PDict unfolding card_row_def by simp
qed (use assms in auto)



section \<open>The outer loop and the table\<close>

text \<open>
  When label \<open>n\<close> is set the index is \<open>0..n-1\<close>, so \<open>df.loc[len(df)]\<close> always appends;
  the four columns grow by one cell per pass, and the first and the last hold strings only.
\<close>

lemma row_at_shape:
  assumes "row_at card_data i = Inr row"
  shows "\<exists>crd p c t. py_getitem card_data (PInt (int i)) = Inr crd \<and> card_text crd = Inr t
     \<and> row = [PStr ''Arkham Horror'', p, c, PStr t]"
  using assms unfolding row_at_def by (auto split: sum.splits dest: card_row_Inr)

lemma append_cell_length: "append_cell lib col x = Inr col' \<Longrightarrow> length col' = Suc (length col)"
  unfolding append_cell_def by (auto split: if_splits sum.splits)

lemma append_cell_plain:
  "list_all plain col \<Longrightarrow> plain x \<Longrightarrow> append_cell lib col x = Inr (col @ [x])"
  unfolding append_cell_def by simp

lemma appended_length: "appended lib col xs = Inr col' \<Longrightarrow> length col' = length col + length xs"
  by (induction xs arbitrary: col) (auto split: sum.splits dest: append_cell_length)

lemma appended_plain:
  "list_all plain col \<Longrightarrow> list_all plain xs \<Longrightarrow> appended lib col xs = Inr (col @ xs)"
  by (induction xs arbitrary: col) (simp_all add: append_cell_plain)

lemma appended_snoc:
  "appended lib col (xs @ [x]) =
     (case appended lib col xs of Inl e \<Rightarrow> Inl e | Inr col' \<Rightarrow> append_cell lib col' x)"
  by (induction xs arbitrary: col) (auto split: sum.splits)

lemma loc_setitem_append:
  assumes "index df = [0..<n]" and "length (columns df) = 4" and "data df = [G, P, C, T]"
  shows "loc_setitem lib df (length (index df)) [g, p, c, t] =
     (case append_cell lib G g of Inl e \<Rightarrow> Inl e | Inr G' \<Rightarrow>
      (case append_cell lib P p of Inl e \<Rightarrow> Inl e | Inr P' \<Rightarrow>
      (case append_cell lib C c of Inl e \<Rightarrow> Inl e | Inr C' \<Rightarrow>
      (case append_cell lib T t of Inl e \<Rightarrow> Inl e | Inr T' \<Rightarrow>
         Inr (df\<lparr>index := [0..<Suc n], data := [G', P', C', T']\<rparr>)))))"
  using assms unfolding loc_setitem_def by (simp split: sum.splits)

lemma rows_loop_Inr:
  assumes "rows_loop lib card_data idxs df = Inr df'"
  shows "\<exists>rows. map (row_at card_data) idxs = map Inr rows"
  using assms
proof (induction idxs arbitrary: df)
  case Nil
  then show ?case by simp
next
  case (Cons i idxs)
  from Cons.prems obtain crd row df1 where "py_getitem card_data (PInt (int i)) = Inr crd"
    and "card_row crd = Inr row" and "rows_loop lib card_data idxs df1 = Inr df'"
    by (auto split: sum.splits)
  moreover from this Cons.IH obtain rest where "map (row_at card_data) idxs = map Inr rest"
    by blast
  ultimately have "map (row_at card_data) (i # idxs) = map Inr (row # rest)"
    by (simp add: row_at_def)
  then show ?case by blast
qed

lemma rows_loop_first_fails:
  assumes "row_at card_data i = Inl e"
  shows "rows_loop lib card_data (i # idxs) df = Inl e"
  using assms unfolding row_at_def by (auto split: sum.splits)

lemma rows_loop_columns:
  assumes "map (row_at card_data) idxs = map Inr rows"
    and "index df = [0..<n]" and "length (columns df) = 4" and "data df = [G, P, C, T]"
  shows "rows_loop lib card_data idxs df = Inr df' \<longleftrightarrow>
     (\<exists>G' P' C' T'.
        appended lib G (map (\<lambda>r. r ! 0) rows) = Inr G'
      \<and> appended lib P (map (\<lambda>r. r ! 1) rows) = Inr P'
      \<and> appended lib C (map (\<lambda>r. r ! 2) rows) = Inr C'
      \<and> appended lib T (map (\<lambda>r. r ! 3) rows) = Inr T'
      \<and> df' = df\<lparr>index := [0..<n + length rows], data := [G', P', C', T']\<rparr>)"
  using assms
proof (induction idxs arbitrary: df n G P C T rows)
  case Nil
  then show ?case by auto
next
  case (Cons i idxs)
  from Cons.prems(1) obtain row rest where rows: "rows = row # rest"
    and row: "row_at card_data i = Inr row"
    and rest: "map (row_at card_data) idxs = map Inr rest"
    by (cases rows) auto
  from row_at_shape [OF row] obtain crd p c t where crd: "py_getitem card_data (PInt (int i)) = Inr crd"
    and shape: "row = [PStr ''Arkham Horror'', p, c, PStr t]"
    by blast
  from row crd have cr: "card_row crd = Inr row"
    by (simp add: row_at_def)
  note step = loc_setitem_append [OF Cons.prems(2,3,4), of lib "PStr ''Arkham Horror''" p c "PStr t"]
  show ?case
  proof (cases "loc_setitem lib df (length (index df)) row")
    case (Inl e)
    with crd cr have "rows_loop lib card_data (i # idxs) df = Inl e" by simp
    moreover from Inl step shape
    have "\<not> (\<exists>G1 P1 C1 T1. append_cell lib G (PStr ''Arkham Horror'') = Inr G1 \<and> append_cell lib P p = Inr P1
        \<and> append_cell lib C c = Inr C1 \<and> append_cell lib T (PStr t) = Inr T1)"
      by (auto split: sum.splits)
    ultimately show ?thesis
      unfolding rows shape by (auto split: sum.splits)
  next
    case (Inr df1)
    with step shape obtain G1 P1 C1 T1 where ap: "append_cell lib G (PStr ''Arkham Horror'') = Inr G1"
      "append_cell lib P p = Inr P1" "append_cell lib C c = Inr C1" "append_cell lib T (PStr t) = Inr T1"
      and df1: "df1 = df\<lparr>index := [0..<Suc n], data := [G1, P1, C1, T1]\<rparr>"
      by (auto split: sum.splits)
    have "rows_loop lib card_data (i # idxs) df = rows_loop lib card_data idxs df1"
      using crd cr Inr by simp
    moreover have "rows_loop lib card_data idxs df1 = Inr df' \<longleftrightarrow>
     (\<exists>G' P' C' T'.
        appended lib G1 (map (\<lambda>r. r ! 0) rest) = Inr G'
      \<and> appended lib P1 (map (\<lambda>r. r ! 1) rest) = Inr P'
      \<and> appended lib C1 (map (\<lambda>r. r ! 2) rest) = Inr C'
      \<and> appended lib T1 (map (\<lambda>r. r ! 3) rest) = Inr T'
      \<and> df' = df1\<lparr>index := [0..<Suc n + length rest], data := [G', P', C', T']\<rparr>)"
      using Cons.prems(3) by (intro Cons.IH [OF rest]) (simp_all add: df1)
    ultimately show ?thesis
      unfolding rows shape using ap by (simp add: df1)
  qed
qed

lemma write_column_str: "list_all is_str col \<Longrightarrow> write_column lib col = Inr col"
  unfolding write_column_def by simp

lemma write_column_length: "write_column lib col = Inr w \<Longrightarrow> length w = length col"
  unfolding write_column_def by (auto split: if_splits sum.splits)

lemma write_column_plain: "list_all plain col \<Longrightarrow> write_column lib col = Inr w \<Longrightarrow> w = col"
  unfolding write_column_def by (auto split: if_splits)

lemma rows_of_length: "length (rows_of n cols) = n"
  unfolding rows_of_def by simp

lemma rows_of_nth: "i < n \<Longrightarrow> rows_of n [G, P, C, T] ! i = [G ! i, P ! i, C ! i, T ! i]"
  unfolding rows_of_def by simp

lemma rows_shaped:
  assumes "map (row_at card_data) idxs = map Inr rows"
  shows "list_all shaped rows"
proof -
  have "shaped r" if "r \<in> set rows" for r
  proof -
    from that have "Inr r \<in> set (map (row_at card_data) idxs)"
      using assms by simp
    then obtain i where "row_at card_data i = Inr r" by auto
    from row_at_shape [OF this] show ?thesis
      unfolding shaped_def by blast
  qed
  then show ?thesis by (simp add: list_all_iff)
qed

lemma shaped_columns:
  assumes "list_all shaped rows"
  shows "list_all is_str (map (\<lambda>r. r ! 0) rows)" and "list_all is_str (map (\<lambda>r. r ! 3) rows)"
  using assms by (auto simp: list_all_iff shaped_def)

lemma is_str_plain: "list_all is_str col \<Longrightarrow> list_all plain col"
  by (simp add: list_all_iff plain_def)

lemma rows_of_columns:
  assumes "list_all shaped rows"
  shows "rows_of (length rows)
     [map (\<lambda>r. r ! 0) rows, map (\<lambda>r. r ! 1) rows, map (\<lambda>r. r ! 2) rows, map (\<lambda>r. r ! 3) rows] = rows"
proof (rule nth_equalityI)
  show "length (rows_of (length rows)
     [map (\<lambda>r. r ! 0) rows, map (\<lambda>r. r ! 1) rows, map (\<lambda>r. r ! 2) rows, map (\<lambda>r. r ! 3) rows]) = length rows"
    by (simp add: rows_of_length)
next
  fix i
  assume "i < length (rows_of (length rows)
     [map (\<lambda>r. r ! 0) rows, map (\<lambda>r. r ! 1) rows, map (\<lambda>r. r ! 2) rows, map (\<lambda>r. r ! 3) rows])"
  then have i: "i < length rows" by (simp add: rows_of_length)
  with assms have "shaped (rows ! i)" by (simp add: list_all_length)
  then show "rows_of (length rows)
     [map (\<lambda>r. r ! 0) rows, map (\<lambda>r. r ! 1) rows, map (\<lambda>r. r ! 2) rows, map (\<lambda>r. r ! 3) rows] ! i = rows ! i"
    using i by (auto simp: rows_of_nth shaped_def)
qed

text \<open>A run succeeds exactly when every pass yields a row, the two middle columns can be
  built and pyarrow can type them.\<close>

lemma run_succeeds_iff:
  "read_cards_json lib fs = (None, fs') \<longleftrightarrow>
     (\<exists>card_data n rows P C P' C'.
        json_data fs = Document card_data \<and> py_len card_data = Inr n
      \<and> map (row_at card_data) [0..<n] = map Inr rows
      \<and> appended lib [] (map (\<lambda>r. r ! 1) rows) = Inr P \<and> write_column lib P = Inr P'
      \<and> appended lib [] (map (\<lambda>r. r ! 2) rows) = Inr C \<and> write_column lib C = Inr C'
      \<and> fs' = fs\<lparr>parquet_file := Some
           \<lparr>pq_columns = [''game_name'', ''expansion'', ''id'', ''text''], pq_index = None,
            pq_rows = rows_of n [map (\<lambda>r. r ! 0) rows, P', C', map (\<lambda>r. r ! 3) rows]\<rparr>\<rparr>)"
  (is "?run \<longleftrightarrow> ?rhs")
proof
  assume ?run
  then obtain card_data df pq where doc: "json_data fs = Document card_data"
    and bt: "build_table lib card_data = Inr df"
    and pq: "to_parquet lib df False = Inr pq" and fs': "fs' = fs\<lparr>parquet_file := Some pq\<rparr>"
    unfolding read_cards_json_def by (cases "json_data fs") (auto split: sum.splits)
  let ?start = "DataFrame [''game_name'', ''expansion'', ''id'', ''text'']"
  from bt obtain n where n: "py_len card_data = Inr n"
    and run: "rows_loop lib card_data [0..<n] ?start = Inr df"
    unfolding build_table_def by (auto split: sum.splits)
  from rows_loop_Inr [OF run] obtain rows where rows: "map (row_at card_data) [0..<n] = map Inr rows"
    by blast
  then have len: "length rows = n"
    by (metis length_map length_upt minus_nat.diff_0)
  have sh: "list_all shaped rows" using rows by (rule rows_shaped)
  have inv: "index ?start = [0..<0]" "length (columns ?start) = 4" "data ?start = [[], [], [], []]"
    by (simp_all add: DataFrame_def)
  from run rows_loop_columns [OF rows inv, of lib df]
  obtain G P C T where G: "appended lib [] (map (\<lambda>r. r ! 0) rows) = Inr G"
    and P: "appended lib [] (map (\<lambda>r. r ! 1) rows) = Inr P"
    and C: "appended lib [] (map (\<lambda>r. r ! 2) rows) = Inr C"
    and T: "appended lib [] (map (\<lambda>r. r ! 3) rows) = Inr T"
    and df: "df = ?start\<lparr>index := [0..<0 + length rows], data := [G, P, C, T]\<rparr>"
    by blast
  from G T shaped_columns [OF sh] have G': "G = map (\<lambda>r. r ! 0) rows" and T': "T = map (\<lambda>r. r ! 3) rows"
    by (simp_all add: appended_plain is_str_plain)
  from pq df obtain P' C' where "write_column lib P = Inr P'" "write_column lib C = Inr C'"
    and "pq = \<lparr>pq_columns = [''game_name'', ''expansion'', ''id'', ''text''], pq_index = None,
            pq_rows = rows_of n [G, P', C', T]\<rparr>"
    using shaped_columns [OF sh] len
    by (auto simp: to_parquet_def DataFrame_def G' T' write_column_str split: sum.splits)
  with doc n rows P C fs' G' T' show ?rhs by blast
next
  assume ?rhs
  then obtain card_data n rows P C P' C' where doc: "json_data fs = Document card_data"
    and n: "py_len card_data = Inr n"
    and rows: "map (row_at card_data) [0..<n] = map Inr rows"
    and P: "appended lib [] (map (\<lambda>r. r ! 1) rows) = Inr P" "write_column lib P = Inr P'"
    and C: "appended lib [] (map (\<lambda>r. r ! 2) rows) = Inr C" "write_column lib C = Inr C'"
    and fs': "fs' = fs\<lparr>parquet_file := Some
           \<lparr>pq_columns = [''game_name'', ''expansion'', ''id'', ''text''], pq_index = None,
            pq_rows = rows_of n [map (\<lambda>r. r ! 0) rows, P', C', map (\<lambda>r. r ! 3) rows]\<rparr>\<rparr>"
    by blast
  let ?start = "DataFrame [''game_name'', ''expansion'', ''id'', ''text'']"
  let ?G = "map (\<lambda>r. r ! 0) rows" and ?T = "map (\<lambda>r. r ! 3) rows"
  from rows have len: "length rows = n"
    by (metis length_map length_upt minus_nat.diff_0)
  have sh: "list_all shaped rows" using rows by (rule rows_shaped)
  have G: "appended lib [] ?G = Inr ?G" and T: "appended lib [] ?T = Inr ?T"
    using shaped_columns [OF sh] by (simp_all add: appended_plain is_str_plain)
  let ?df = "?start\<lparr>index := [0..<0 + length rows], data := [?G, P, C, ?T]\<rparr>"
  have inv: "index ?start = [0..<0]" "length (columns ?start) = 4" "data ?start = [[], [], [], []]"
    by (simp_all add: DataFrame_def)
  have "rows_loop lib card_data [0..<n] ?start = Inr ?df"
    unfolding rows_loop_columns [OF rows inv, of lib ?df] using G P(1) C(1) T by blast
  then have bt: "build_table lib card_data = Inr ?df"
    using n by (simp add: build_table_def)
  have "to_parquet lib ?df False =
     Inr \<lparr>pq_columns = [''game_name'', ''expansion'', ''id'', ''text''], pq_index = None,
            pq_rows = rows_of n [?G, P', C', ?T]\<rparr>"
    using P(2) C(2) shaped_columns [OF sh] len
    by (simp add: to_parquet_def DataFrame_def write_column_str)
  with doc bt fs' show ?run
    by (simp add: read_cards_json_def)
qed

lemma row_at_list: "i < length cards \<Longrightarrow> row_at (PList cards) i = card_row (cards ! i)"
  by (simp add: row_at_def seq_index_def)

lemma rows_of_list: "map (row_at (PList cards)) [0..<length cards] = map card_row cards"
  by (rule nth_equalityI) (simp_all add: row_at_list)

lemma card_with_valid: "card_with P crd \<Longrightarrow> valid_card crd"
  by (cases crd) (auto simp: field_is_def split: option.splits dest!: map_of_SomeD intro: rev_image_eqI)

lemma valid_cards_rows:
  assumes "\<forall>c \<in> set cards. valid_card c"
  shows "\<exists>rows. map card_row cards = map Inr rows"
  using assms
proof (induction cards)
  case Nil
  then show ?case by simp
next
  case (Cons c cards)
  then obtain row rest where "card_row c = Inr row" "map card_row cards = map Inr rest"
    using card_row_valid [of c] by auto
  then have "map card_row (c # cards) = map Inr (row # rest)" by simp
  then show ?case by blast
qed

lemma card_with_columns:
  assumes "list_all (card_with P) cards" and "map card_row cards = map Inr rows"
  shows "list_all P (map (\<lambda>r. r ! 1) rows)" and "list_all P (map (\<lambda>r. r ! 2) rows)"
proof -
  have "P (r ! 1) \<and> P (r ! 2)" if "r \<in> set rows" for r
  proof -
    from that obtain i where i: "i < length rows" "rows ! i = r"
      by (auto simp: in_set_conv_nth)
    with assms(2) have len: "i < length cards" and cr: "card_row (cards ! i) = Inr r"
      by (metis length_map, metis length_map nth_map)
    from assms(1) len have "card_with P (cards ! i)"
      by (simp add: list_all_length)
    with card_row_Inr [OF cr] show ?thesis
      by (auto simp: field_is_def)
  qed
  then show "list_all P (map (\<lambda>r. r ! 1) rows)" and "list_all P (map (\<lambda>r. r ! 2) rows)"
    by (simp_all add: list_all_iff)
qed

lemma rows_values:
  assumes "map card_row cards = map Inr rows"
  shows "map (\<lambda>r. r ! 1) rows = values_of ''pack_name'' cards
     \<and> map (\<lambda>r. r ! 2) rows = values_of ''code'' cards"
  using assms
proof (induction cards arbitrary: rows)
  case Nil
  then show ?case by (simp add: values_of_def map_filter_simps)
next
  case (Cons c cards)
  from Cons.prems obtain r rs where rows: "rows = r # rs" and r: "card_row c = Inr r"
    and rs: "map card_row cards = map Inr rs"
    by (cases rows) auto
  from card_row_Inr [OF r] obtain kvs p cc t where c: "c = PDict kvs"
    and "map_of kvs ''pack_name'' = Some p" "map_of kvs ''code'' = Some cc"
    and "r = [PStr ''Arkham Horror'', p, cc, PStr t]"
    by blast
  then have "card_value ''pack_name'' c = Some (r ! 1)" "card_value ''code'' c = Some (r ! 2)"
    by (simp_all add: card_value_def)
  with Cons.IH [OF rs] rows show ?case
    by (simp add: values_of_def map_filter_simps)
qed

lemma uniform_plain: "uniform col \<Longrightarrow> list_all plain col"
  unfolding uniform_def plain_def list_all_iff by blast

lemma write_column_uniform: "uniform col \<Longrightarrow> write_column lib col = Inr col"
  unfolding uniform_def write_column_def by simp

lemma run_card_rows:
  assumes "json_data fs = Document (PList cards)" and "read_cards_json lib fs = (None, fs')"
  shows "\<exists>rows. map card_row cards = map Inr rows"
proof -
  from assms(2) [unfolded run_succeeds_iff] assms(1) obtain n rows
    where "length cards = n" "map (row_at (PList cards)) [0..<n] = map Inr rows"
    by auto
  then have "map card_row cards = map Inr rows"
    using rows_of_list [of cards] by simp
  then show ?thesis ..
qed

text \<open>When the two middle columns hold strings and 64-bit integers only, a run that
  succeeds writes the rows as the loop computed them.\<close>

lemma plain_rows_run:
  assumes doc: "json_data fs = Document (PList cards)"
    and run: "read_cards_json lib fs = (None, fs')"
    and cr: "map card_row cards = map Inr rows"
    and cols: "list_all plain (map (\<lambda>r. r ! 1) rows)" "list_all plain (map (\<lambda>r. r ! 2) rows)"
  shows "fs' = fs\<lparr>parquet_file := Some
          \<lparr>pq_columns = [''game_name'', ''expansion'', ''id'', ''text''], pq_index = None,
           pq_rows = rows\<rparr>\<rparr>"
proof -
  from run [unfolded run_succeeds_iff] doc obtain n rows' P C P' C'
    where n: "length cards = n"
      and rows': "map (row_at (PList cards)) [0..<n] = map Inr rows'"
      and P: "appended lib [] (map (\<lambda>r. r ! 1) rows') = Inr P" "write_column lib P = Inr P'"
      and C: "appended lib [] (map (\<lambda>r. r ! 2) rows') = Inr C" "write_column lib C = Inr C'"
      and fs': "fs' = fs\<lparr>parquet_file := Some
           \<lparr>pq_columns = [''game_name'', ''expansion'', ''id'', ''text''], pq_index = None,
            pq_rows = rows_of n [map (\<lambda>r. r ! 0) rows', P', C', map (\<lambda>r. r ! 3) rows']\<rparr>\<rparr>"
    by auto
  from rows' n have "map card_row cards = map Inr rows'"
    using rows_of_list [of cards] by simp
  with cr have "map Inr rows' = (map Inr rows :: (error + pyval list) list)"
    by simp
  then have same: "rows' = rows"
    by (simp add: inj_map_eq_map)
  from cr have len: "length rows = n" using n by (metis length_map)
  from P(1) cols(1) have "P = map (\<lambda>r. r ! 1) rows" by (simp add: appended_plain same)
  with P(2) cols(1) have P': "P' = map (\<lambda>r. r ! 1) rows" using write_column_plain by blast
  from C(1) cols(2) have "C = map (\<lambda>r. r ! 2) rows" by (simp add: appended_plain same)
  with C(2) cols(2) have C': "C' = map (\<lambda>r. r ! 2) rows" using write_column_plain by blast
  have "list_all shaped rows" using rows' unfolding same by (rule rows_shaped)
  then have "rows_of (length rows)
      [map (\<lambda>r. r ! 0) rows, map (\<lambda>r. r ! 1) rows, map (\<lambda>r. r ! 2) rows, map (\<lambda>r. r ! 3) rows] = rows"
    by (rule rows_of_columns)
  then have "rows_of n [map (\<lambda>r. r ! 0) rows, P', C', map (\<lambda>r. r ! 3) rows] = rows"
    unfolding len P' C' .
  with fs' same show ?thesis by simp
qed

lemma plain_run:
  assumes doc: "json_data fs = Document (PList cards)"
    and plain: "list_all (card_with plain) cards"
    and run: "read_cards_json lib fs = (None, fs')"
  shows "\<exists>rows. map card_row cards = map Inr rows
     \<and> fs' = fs\<lparr>parquet_file := Some
          \<lparr>pq_columns = [''game_name'', ''expansion'', ''id'', ''text''], pq_index = None,
           pq_rows = rows\<rparr>\<rparr>"
proof -
  from run_card_rows [OF doc run] obtain rows where cr: "map card_row cards = map Inr rows" ..
  from plain_rows_run [OF doc run cr card_with_columns [OF plain cr]] cr
  show ?thesis by blast
qed

text \<open>On an array of cards in which each of the two keys has strings only, or 64-bit
  integers only, the run succeeds.\<close>

lemma uniform_run:
  assumes doc: "json_data fs = Document (PList cards)"
    and valid: "list_all valid_card cards"
    and uniform: "uniform (values_of ''pack_name'' cards)" "uniform (values_of ''code'' cards)"
  shows "\<exists>fs'. read_cards_json lib fs = (None, fs')"
proof -
  from valid have "\<forall>c \<in> set cards. valid_card c"
    by (simp add: list_all_iff)
  from valid_cards_rows [OF this] obtain rows where cr: "map card_row cards = map Inr rows"
    by blast
  then have rows: "map (row_at (PList cards)) [0..<length cards] = map Inr rows"
    using rows_of_list [of cards] by simp
  from uniform rows_values [OF cr]
  have cols: "uniform (map (\<lambda>r. r ! 1) rows)" "uniform (map (\<lambda>r. r ! 2) rows)"
    by simp_all
  have "appended lib [] (map (\<lambda>r. r ! 1) rows) = Inr (map (\<lambda>r. r ! 1) rows)"
    "appended lib [] (map (\<lambda>r. r ! 2) rows) = Inr (map (\<lambda>r. r ! 2) rows)"
    using cols by (simp_all add: appended_plain uniform_plain)
  moreover have "write_column lib (map (\<lambda>r. r ! 1) rows) = Inr (map (\<lambda>r. r ! 1) rows)"
    "write_column lib (map (\<lambda>r. r ! 2) rows) = Inr (map (\<lambda>r. r ! 2) rows)"
    using cols by (simp_all add: write_column_uniform)
  ultimately show ?thesis
    unfolding run_succeeds_iff using doc rows by force
qed


lemma run_rows:
  assumes "read_cards_json lib fs = (None, fs')"
  shows "\<exists>card_data n rows. json_data fs = Document card_data \<and> py_len card_data = Inr n
     \<and> parquet_file fs' = Some
          \<lparr>pq_columns = [''game_name'', ''expansion'', ''id'', ''text''], pq_index = None,
           pq_rows = rows\<rparr>
     \<and> length rows = n
     \<and> (\<forall>i < n. \<exists>crd p c t. py_getitem card_data (PInt (int i)) = Inr crd
          \<and> card_text crd = Inr t \<and> rows ! i = [PStr ''Arkham Horror'', p, c, PStr t])"
proof -
  from assms [unfolded run_succeeds_iff] obtain card_data n rows P C P' C'
    where doc: "json_data fs = Document card_data" and n: "py_len card_data = Inr n"
      and rows: "map (row_at card_data) [0..<n] = map Inr rows"
      and fs': "fs' = fs\<lparr>parquet_file := Some
           \<lparr>pq_columns = [''game_name'', ''expansion'', ''id'', ''text''], pq_index = None,
            pq_rows = rows_of n [map (\<lambda>r. r ! 0) rows, P', C', map (\<lambda>r. r ! 3) rows]\<rparr>\<rparr>"
    by auto
  let ?rows = "rows_of n [map (\<lambda>r. r ! 0) rows, P', C', map (\<lambda>r. r ! 3) rows]"
  from rows have len: "length rows = n"
    by (metis length_map length_upt minus_nat.diff_0)
  have "\<exists>crd p c t. py_getitem card_data (PInt (int i)) = Inr crd
          \<and> card_text crd = Inr t \<and> ?rows ! i = [PStr ''Arkham Horror'', p, c, PStr t]"
    if "i < n" for i
  proof -
    from that rows len have "row_at card_data i = Inr (rows ! i)"
      by (metis add_0 length_map nth_map nth_upt)
    from row_at_shape [OF this] obtain crd p c t
      where "py_getitem card_data (PInt (int i)) = Inr crd" "card_text crd = Inr t"
        "rows ! i = [PStr ''Arkham Horror'', p, c, PStr t]"
      by blast
    with that len show ?thesis
      by (simp add: rows_of_nth)
  qed
  moreover have "length ?rows = n" by (rule rows_of_length)
  moreover from fs' have "parquet_file fs' = Some
          \<lparr>pq_columns = [''game_name'', ''expansion'', ''id'', ''text''], pq_index = None,
           pq_rows = ?rows\<rparr>"
    by simp
  ultimately show ?thesis
    using doc n by blast
qed


text \<open>Two runs on strings and integers, whatever the library.\<close>

lemma mixed_run:
  "read_cards_json lib
     \<lparr>json_data = Document (PList
        [PDict [(''pack_name'', PStr ''Core Set''), (''code'', PStr ''01001'')],
         PDict [(''pack_name'', PStr ''Core Set''), (''code'', PInt 1002)]]),
      parquet_file = None\<rparr> =
   (Some ArrowError,
    \<lparr>json_data = Document (PList
        [PDict [(''pack_name'', PStr ''Core Set''), (''code'', PStr ''01001'')],
         PDict [(''pack_name'', PStr ''Core Set''), (''code'', PInt 1002)]]),
      parquet_file = None\<rparr>)"
  by code_simp

lemma int_run:
  "read_cards_json lib
     \<lparr>json_data = Document (PList [PDict [(''pack_name'', PStr ''Core Set''), (''code'', PInt 7)]]),
      parquet_file = None\<rparr> =
   (None,
    \<lparr>json_data = Document (PList [PDict [(''pack_name'', PStr ''Core Set''), (''code'', PInt 7)]]),
     parquet_file = Some
       \<lparr>pq_columns = [''game_name'', ''expansion'', ''id'', ''text''],
        pq_index = None,
        pq_rows = [[PStr ''Arkham Horror'', PStr ''Core Set'', PInt 7,
          PStr ''Game Name : Arkham Horror, pack_name : Core Set, code : 7'']]\<rparr>\<rparr>)"
  by code_simp

section \<open>One pass of \<open>replace\<close> over bold markup\<close>

text \<open>
  \<open>replace\<close> removes the occurrences it finds going left to right and never looks at
  what it has put together. A tag is left in the result only where the input has one
  glued behind an unfinished tag; the separators the loop adds never complete a tag.
\<close>

lemma glued_mono: "glued s \<Longrightarrow> sublist s u \<Longrightarrow> glued u"
  unfolding glued_def list_ex_iff by (meson sublist_order.order.trans)

lemma py_replace_skip:
  assumes "old \<noteq> []"
  shows "py_replace (old @ r) old new = new @ py_replace r old new"
proof -
  from assms obtain c cs where "old @ r = c # cs"
    by (cases old) auto
  moreover have "prefix old (old @ r)" by simp
  ultimately show ?thesis
    using assms by (metis append_eq_conv_conj py_replace.simps(2))
qed

lemma py_replace_keep:
  assumes "old \<noteq> []" and "\<not> prefix old (c # cs)"
  shows "py_replace (c # cs) old new = c # py_replace cs old new"
  using assms by (subst py_replace.simps(2)) (simp only: if_False)

text \<open>What the output begins with either begins the input, or a removed occurrence
  stands in the input behind a proper part of it.\<close>

lemma prefix_replace:
  assumes "old \<noteq> []" and "prefix q (py_replace v old [])"
  shows "prefix q v \<or> (\<exists>q1 q2. q = q1 @ q2 \<and> q2 \<noteq> [] \<and> prefix (q1 @ old) v)"
  using assms(2)
proof (induction q arbitrary: v)
  case Nil
  then show ?case by simp
next
  case (Cons x q)
  show ?case
  proof (cases v)
    case Nil
    with Cons.prems assms(1) show ?thesis by simp
  next
    case v: (Cons c cs)
    show ?thesis
    proof (cases "prefix old v")
      case True
      then have "x # q = [] @ (x # q) \<and> x # q \<noteq> [] \<and> prefix ([] @ old) v" by simp
      then show ?thesis by blast
    next
      case False
      with v assms(1) have "py_replace v old [] = c # py_replace cs old []"
        by (simp add: py_replace_keep)
      with Cons.prems have x: "x = c" and "prefix q (py_replace cs old [])" by simp_all
      from Cons.IH [OF this(2)] show ?thesis
      proof
        assume "prefix q cs"
        with x v show ?thesis by simp
      next
        assume "\<exists>q1 q2. q = q1 @ q2 \<and> q2 \<noteq> [] \<and> prefix (q1 @ old) cs"
        then obtain q1 q2 where "q = q1 @ q2" "q2 \<noteq> []" "prefix (q1 @ old) cs" by blast
        with x v have "x # q = (c # q1) @ q2 \<and> q2 \<noteq> [] \<and> prefix ((c # q1) @ old) v" by simp
        then show ?thesis by blast
      qed
    qed
  qed
qed

text \<open>A pattern that removing \<open>old\<close> cannot put together without a glued tag in the
  input survives only where the input has it.\<close>

lemma pattern_survives:
  assumes old: "old \<noteq> []" and p: "p \<noteq> []"
    and closed: "\<And>q1 q2. p = q1 @ q2 \<Longrightarrow> q1 \<noteq> [] \<Longrightarrow> q2 \<noteq> [] \<Longrightarrow> glued (q1 @ old)"
  shows "\<not> glued u \<Longrightarrow> sublist p (py_replace u old []) \<Longrightarrow> sublist p u"
proof (induction u rule: length_induct)
  case (1 u)
  show ?case
  proof (cases u)
    case Nil
    with "1.prems" old p show ?thesis by simp
  next
    case u: (Cons c cs)
    show ?thesis
    proof (cases "prefix old u")
      case True
      then obtain r where r: "u = old @ r" by (auto simp: prefix_def)
      then have "sublist r u" by simp
      with "1.prems"(1) have "\<not> glued r" using glued_mono by blast
      moreover from "1.prems"(2) r old have "sublist p (py_replace r old [])"
        by (simp add: py_replace_skip)
      moreover have "length r < length u" using r old by simp
      ultimately have "sublist p r" using "1.IH" by blast
      with r show ?thesis
        by (metis sublist_append_leftI sublist_order.order.trans)
    next
      case False
      with u old have keep: "py_replace u old [] = c # py_replace cs old []"
        by (simp add: py_replace_keep)
      with "1.prems"(2) consider "prefix p (c # py_replace cs old [])" | "sublist p (py_replace cs old [])"
        by (auto simp: sublist_Cons_right)
      then show ?thesis
      proof cases
        case 2
        have "sublist cs u" using u by (metis sublist_Cons_right sublist_order.order.refl)
        with "1.prems"(1) have "\<not> glued cs" using glued_mono by blast
        with 2 "1.IH" u have "sublist p cs" by simp
        with u show ?thesis by (simp add: sublist_Cons_right)
      next
        case 1
        with p obtain p' where p': "p = c # p'" and pre: "prefix p' (py_replace cs old [])"
          by (cases p) auto
        from prefix_replace [OF old pre] show ?thesis
        proof
          assume "prefix p' cs"
          with p' u have "prefix p u" by simp
          then show ?thesis by (rule prefix_imp_sublist)
        next
          assume "\<exists>q1 q2. p' = q1 @ q2 \<and> q2 \<noteq> [] \<and> prefix (q1 @ old) cs"
          then obtain q1 q2 where q: "p' = q1 @ q2" "q2 \<noteq> []" "prefix (q1 @ old) cs" by blast
          with p' have "glued ((c # q1) @ old)"
            by (intro closed [of "c # q1" q2]) simp_all
          moreover from q(3) u have "sublist ((c # q1) @ old) u"
            by (simp add: prefix_imp_sublist)
          ultimately have "glued u" by (rule glued_mono)
          with "1.prems"(1) show ?thesis by simp
        qed
      qed
    qed
  qed
qed

text \<open>All occurrences of \<open>old\<close> are gone when no part of \<open>old\<close> stood glued before one.\<close>

lemma pattern_removed:
  assumes old: "old \<noteq> []"
    and closed: "\<And>q1 q2. old = q1 @ q2 \<Longrightarrow> q1 \<noteq> [] \<Longrightarrow> q2 \<noteq> [] \<Longrightarrow> glued (q1 @ old)"
  shows "\<not> glued u \<Longrightarrow> \<not> sublist old (py_replace u old [])"
proof (induction u rule: length_induct)
  case (1 u)
  show ?case
  proof (cases u)
    case Nil
    with old show ?thesis by simp
  next
    case u: (Cons c cs)
    show ?thesis
    proof (cases "prefix old u")
      case True
      then obtain r where r: "u = old @ r" by (auto simp: prefix_def)
      then have "sublist r u" by simp
      with "1.prems" have "\<not> glued r" using glued_mono by blast
      moreover have "length r < length u" using r old by simp
      ultimately have "\<not> sublist old (py_replace r old [])" using "1.IH" by blast
      with r old show ?thesis by (simp add: py_replace_skip)
    next
      case False
      with u old have keep: "py_replace u old [] = c # py_replace cs old []"
        by (simp add: py_replace_keep)
      have "sublist cs u" using u by (metis sublist_Cons_right sublist_order.order.refl)
      with "1.prems" have "\<not> glued cs" using glued_mono by blast
      with "1.IH" u have tl: "\<not> sublist old (py_replace cs old [])" by simp
      have "\<not> prefix old (c # py_replace cs old [])"
      proof
        assume "prefix old (c # py_replace cs old [])"
        with old obtain o' where o': "old = c # o'" and pre: "prefix o' (py_replace cs old [])"
          by (cases old) auto
        from prefix_replace [OF old pre] show False
        proof
          assume "prefix o' cs"
          with o' u False show False by simp
        next
          assume "\<exists>q1 q2. o' = q1 @ q2 \<and> q2 \<noteq> [] \<and> prefix (q1 @ old) cs"
          then obtain q1 q2 where q: "o' = q1 @ q2" "q2 \<noteq> []" "prefix (q1 @ old) cs" by blast
          with o' have "glued ((c # q1) @ old)"
            by (intro closed [of "c # q1" q2]) simp_all
          moreover from q(3) u have "sublist ((c # q1) @ old) u"
            by (simp add: prefix_imp_sublist)
          ultimately have "glued u" by (rule glued_mono)
          with "1.prems" show False by simp
        qed
      qed
      with tl keep show ?thesis by (simp add: sublist_Cons_right)
    qed
  qed
qed

text \<open>Every way to cut a pattern in two is a cut at some length.\<close>

lemma cuts:
  assumes "list_all (\<lambda>k. glued (take k p @ old)) [1..<length p]"
    and "p = q1 @ q2" and "q1 \<noteq> []" and "q2 \<noteq> []"
  shows "glued (q1 @ old)"
proof -
  from assms(2-4) have "length q1 \<in> set [1..<length p]" "take (length q1) p = q1"
    by (auto simp: Suc_le_eq)
  with assms(1) show ?thesis
    by (metis (mono_tags, lifting) list_all_iff)
qed

lemma first_pass:
  assumes "\<not> glued s"
  shows "\<not> glued (py_replace s ''<b>'' [])" and "\<not> sublist ''<b>'' (py_replace s ''<b>'' [])"
proof -
  have "\<not> sublist p (py_replace s ''<b>'' [])"
    if "p \<in> set [''<<b>'', ''<b<b>'', ''</<b>'', ''</b<b>'', ''<</b>'', ''<b</b>'', ''</</b>'', ''</b</b>'']" for p
  proof
    assume sub: "sublist p (py_replace s ''<b>'' [])"
    from that have "p \<noteq> []" and "list_all (\<lambda>k. glued (take k p @ ''<b>'')) [1..<length p]"
      by (auto, code_simp+)
    then have "sublist p s"
      using pattern_survives [of "''<b>''" p s] cuts assms sub by blast
    with that have "glued s"
      unfolding glued_def list_ex_iff by blast
    with assms show False by simp
  qed
  then show "\<not> glued (py_replace s ''<b>'' [])"
    unfolding glued_def list_ex_iff by blast
  have "list_all (\<lambda>k. glued (take k ''<b>'' @ ''<b>'')) [1..<length ''<b>'']"
    by code_simp
  then show "\<not> sublist ''<b>'' (py_replace s ''<b>'' [])"
    using pattern_removed [of "''<b>''" s] cuts assms by blast
qed

lemma second_pass:
  assumes "\<not> glued s" and "\<not> sublist ''<b>'' s"
  shows "\<not> sublist ''<b>'' (py_replace s ''</b>'' [])" and "\<not> sublist ''</b>'' (py_replace s ''</b>'' [])"
proof -
  have "list_all (\<lambda>k. glued (take k ''<b>'' @ ''</b>'')) [1..<length ''<b>'']"
    by code_simp
  then show "\<not> sublist ''<b>'' (py_replace s ''</b>'' [])"
    using pattern_survives [of "''</b>''" "''<b>''" s] cuts assms by blast
  have "list_all (\<lambda>k. glued (take k ''</b>'' @ ''</b>'')) [1..<length ''</b>'']"
    by code_simp
  then show "\<not> sublist ''</b>'' (py_replace s ''</b>'' [])"
    using pattern_removed [of "''</b>''" s] cuts assms(1) by blast
qed

lemma sublist_strip: "sublist (strip s) s"
proof -
  have "suffix (lstrip s) s"
    unfolding lstrip_def by (rule suffix_dropWhile)
  moreover have "prefix (strip s) (lstrip s)"
    unfolding strip_def rstrip_def
    by (metis prefix_def rev_append rev_rev_ident takeWhile_dropWhile_id)
  ultimately show ?thesis
    by (meson prefix_imp_sublist suffix_imp_sublist sublist_order.order.trans)
qed

lemma clean_value_no_tag:
  assumes "\<not> glued s"
  shows "\<not> sublist ''<b>'' (clean_value s)" and "\<not> sublist ''</b>'' (clean_value s)"
proof -
  let ?s1 = "py_replace s ''<b>'' []"
  let ?s2 = "py_replace ?s1 ''</b>'' []"
  from second_pass [OF first_pass [OF assms]]
  have "\<not> sublist ''<b>'' ?s2" "\<not> sublist ''</b>'' ?s2" .
  moreover have "sublist (clean_value s) ?s2"
    unfolding clean_value_def by (rule sublist_strip)
  ultimately show "\<not> sublist ''<b>'' (clean_value s)" and "\<not> sublist ''</b>'' (clean_value s)"
    by (meson sublist_order.order.trans)+
qed

lemma sublist_sep:
  assumes "c \<notin> set t"
  shows "sublist t (xs @ c # ys) \<longleftrightarrow> sublist t xs \<or> sublist t ys"
proof
  assume "sublist t (xs @ c # ys)"
  then consider "sublist t xs" | "sublist t (c # ys)"
    | t1 t2 where "t = t1 @ t2" "suffix t1 xs" "prefix t2 (c # ys)"
    unfolding sublist_append by blast
  then show "sublist t xs \<or> sublist t ys"
  proof cases
    case 1
    then show ?thesis by simp
  next
    case 2
    then have "prefix t (c # ys) \<or> sublist t ys"
      by (simp add: sublist_Cons_right)
    with assms show ?thesis
      by (cases t) auto
  next
    case 3
    with assms have "t2 = []"
      by (cases t2) auto
    with 3 show ?thesis
      by (auto simp: suffix_imp_sublist)
  qed
next
  assume "sublist t xs \<or> sublist t ys"
  then show "sublist t (xs @ c # ys)"
    by (auto simp: sublist_append sublist_Cons_right)
qed

lemma sublist_fragment:
  assumes "CHR '' '' \<notin> set t" and "CHR '','' \<notin> set t" and "CHR '':'' \<notin> set t" and "t \<noteq> []"
  shows "sublist t (acc @ '', '' @ k @ '' : '' @ v) \<longleftrightarrow> sublist t acc \<or> sublist t k \<or> sublist t v"
proof -
  have "sublist t (acc @ '', '' @ k @ '' : '' @ v)
      \<longleftrightarrow> sublist t acc \<or> sublist t ([] @ CHR '' '' # (k @ CHR '' '' # ([CHR '':''] @ CHR '' '' # v)))"
    using sublist_sep [OF assms(2), of acc] by simp
  also have "\<dots> \<longleftrightarrow> sublist t acc \<or> sublist t k \<or> sublist t [CHR '':''] \<or> sublist t v"
    using assms(4) unfolding sublist_sep [OF assms(1)] by simp
  also have "\<dots> \<longleftrightarrow> sublist t acc \<or> sublist t k \<or> sublist t v"
    using assms(3,4) sublist_sep [OF assms(3), of "[]" "[]"] by auto
  finally show ?thesis .
qed

lemma text_loop_sublist:
  assumes "CHR '' '' \<notin> set t" and "CHR '','' \<notin> set t" and "CHR '':'' \<notin> set t" and "t \<noteq> []"
    and "text_loop (PDict kvs) keys acc = Inr r" and "sublist t r"
  shows "sublist t acc \<or> (\<exists>k v. k \<notin> set excluded_keys \<and> map_of kvs k = Some v
     \<and> (sublist t k \<or> sublist t (clean_value (py_str v))))"
  using assms(5,6)
proof (induction keys arbitrary: acc)
  case Nil
  then show ?case by simp
next
  case (Cons key keys)
  show ?case
  proof (cases "not_in_excluded key")
    case False
    with Cons show ?thesis by simp
  next
    case True
    with Cons.prems(1) obtain k v where key: "key = PStr k"
      and v: "map_of kvs k = Some v"
      and run: "text_loop (PDict kvs) keys (acc @ '', '' @ k @ '' : '' @ clean_value (py_str v)) = Inr r"
      by (auto split: sum.splits pyval.splits option.splits)
    from True key have k: "k \<notin> set excluded_keys" by simp
    from Cons.IH [OF run Cons.prems(2)] show ?thesis
      using k v sublist_fragment [OF assms(1-4)] by blast
  qed
qed

lemma sublist_concat: "x \<in> set xs \<Longrightarrow> sublist x (concat xs)"
proof -
  assume "x \<in> set xs"
  then obtain as bs where "xs = as @ x # bs"
    by (meson split_list)
  then have "concat xs = concat as @ x @ concat bs" by simp
  then show ?thesis
    unfolding sublist_def by blast
qed

lemma text_sublist_iff:
  assumes "distinct (map fst kvs)" and "card_text (PDict kvs) = Inr t"
    and "tag = ''<b>'' \<or> tag = ''</b>''"
  shows "sublist tag t \<longleftrightarrow>
     (\<exists>(k, v) \<in> set kvs. k \<notin> set excluded_keys
        \<and> (sublist tag k \<or> sublist tag (clean_value (py_str v))))"
proof
  assume tag: "sublist tag t"
  from assms(2) have run:
    "text_loop (PDict kvs) (map (\<lambda>kv. PStr (fst kv)) kvs) ''Game Name : Arkham Horror'' = Inr t"
    by (simp add: card_text_def)
  have notin: "CHR '' '' \<notin> set tag" "CHR '','' \<notin> set tag" "CHR '':'' \<notin> set tag" "tag \<noteq> []"
    using assms(3) by auto
  have "\<not> sublist ''<b>'' ''Game Name : Arkham Horror''"
    "\<not> sublist ''</b>'' ''Game Name : Arkham Horror''"
    by code_simp+
  with assms(3) have "\<not> sublist tag ''Game Name : Arkham Horror''"
    by blast
  with text_loop_sublist [OF notin run tag]
  obtain k v where kv: "k \<notin> set excluded_keys" "map_of kvs k = Some v"
    "sublist tag k \<or> sublist tag (clean_value (py_str v))"
    by blast
  from kv(2) have "(k, v) \<in> set kvs" by (rule map_of_SomeD)
  with kv(1,3) show "\<exists>(k, v) \<in> set kvs. k \<notin> set excluded_keys
        \<and> (sublist tag k \<or> sublist tag (clean_value (py_str v)))"
    by blast
next
  let ?frag = "\<lambda>kv. '', '' @ fst kv @ '' : '' @ clean_value (py_str (snd kv))"
  let ?kept = "filter (\<lambda>kv. fst kv \<notin> set excluded_keys) kvs"
  assume "\<exists>(k, v) \<in> set kvs. k \<notin> set excluded_keys
        \<and> (sublist tag k \<or> sublist tag (clean_value (py_str v)))"
  then obtain k v where kv: "(k, v) \<in> set kvs" "k \<notin> set excluded_keys"
    and tag: "sublist tag k \<or> sublist tag (clean_value (py_str v))"
    by blast
  have "sublist k ('', '' @ k @ '' : '' @ clean_value (py_str v))"
    "sublist (clean_value (py_str v)) ('', '' @ k @ '' : '' @ clean_value (py_str v))"
    by (simp_all add: sublist_append sublist_Cons_right)
  with tag have "sublist tag ('', '' @ k @ '' : '' @ clean_value (py_str v))"
    using sublist_order.order.trans by blast
  then have "sublist tag (?frag (k, v))" by simp
  moreover from kv have "(k, v) \<in> set ?kept" by simp
  then have "?frag (k, v) \<in> ?frag ` set ?kept"
    by (rule imageI)
  then have "?frag (k, v) \<in> set (map ?frag ?kept)"
    by (simp only: set_map)
  then have "sublist (?frag (k, v)) (concat (map ?frag ?kept))"
    by (rule sublist_concat)
  ultimately have "sublist tag (concat (map ?frag ?kept))"
    using sublist_order.order.trans by blast
  moreover from assms(2) card_text_dict [OF assms(1)]
  have "t = ''Game Name : Arkham Horror'' @ concat (map ?frag ?kept)"
    by simp
  ultimately show "sublist tag t"
    by (simp only: sublist_append) blast
qed

section \<open>Rows of the table\<close>

text \<open>
  C1, as amended. Whenever a run on an array writes the file, the table has as many rows
  as the array has elements, and row \<open>i\<close> is made from element \<open>i\<close>: \<open>Arkham Horror\<close>,
  a cell for its \<open>pack_name\<close>, a cell for its \<open>code\<close>, and its text; nothing is
  dropped, added, merged or reordered. When every element is an object that has the two
  keys, the \<open>pack_name\<close> values are all strings or all 64-bit integers, and so are the
  \<open>code\<close> values, the run does write the file, and row \<open>i\<close> is exactly the row computed
  from element \<open>i\<close>. The claim as stated, for every array of objects that have the two keys,
  fails: the two values go into the table as they are, pyarrow refuses a column that
  holds a string and an integer, and the run raises at \<open>to_parquet\<close> with nothing
  written.
\<close>

theorem rows_preserved:
  assumes "json_data fs = Document (PList cards)"
  shows "(list_all valid_card cards
        \<and> uniform (values_of ''pack_name'' cards) \<and> uniform (values_of ''code'' cards) \<longrightarrow>
       (\<exists>rows. read_cards_json lib fs =
            (None, fs\<lparr>parquet_file := Some
               \<lparr>pq_columns = [''game_name'', ''expansion'', ''id'', ''text''], pq_index = None,
                pq_rows = rows\<rparr>\<rparr>)
          \<and> length rows = length cards
          \<and> (\<forall>i < length cards. card_row (cards ! i) = Inr (rows ! i))))
     \<and> (\<forall>fs'. read_cards_json lib fs = (None, fs') \<longrightarrow>
       (\<exists>rows. parquet_file fs' = Some
               \<lparr>pq_columns = [''game_name'', ''expansion'', ''id'', ''text''], pq_index = None,
                pq_rows = rows\<rparr>
          \<and> length rows = length cards
          \<and> (\<forall>i < length cards. \<exists>p c t. card_text (cards ! i) = Inr t
                \<and> rows ! i = [PStr ''Arkham Horror'', p, c, PStr t])))"
proof (intro conjI impI allI)
  assume "list_all valid_card cards
    \<and> uniform (values_of ''pack_name'' cards) \<and> uniform (values_of ''code'' cards)"
  then have valid: "list_all valid_card cards"
    and uniform: "uniform (values_of ''pack_name'' cards)" "uniform (values_of ''code'' cards)"
    by simp_all
  from uniform_run [OF assms valid uniform] obtain fs'
    where run: "read_cards_json lib fs = (None, fs')"
    by blast
  from run_card_rows [OF assms run] obtain rows where cr: "map card_row cards = map Inr rows" ..
  from uniform rows_values [OF cr]
  have "list_all plain (map (\<lambda>r. r ! 1) rows)" "list_all plain (map (\<lambda>r. r ! 2) rows)"
    by (simp_all add: uniform_plain)
  from plain_rows_run [OF assms run cr this]
  have fs': "fs' = fs\<lparr>parquet_file := Some
          \<lparr>pq_columns = [''game_name'', ''expansion'', ''id'', ''text''], pq_index = None,
           pq_rows = rows\<rparr>\<rparr>" .
  from cr have len: "length rows = length cards"
    by (metis length_map)
  have "card_row (cards ! i) = Inr (rows ! i)" if "i < length cards" for i
    using cr that len by (metis nth_map)
  with run fs' len show "\<exists>rows. read_cards_json lib fs =
            (None, fs\<lparr>parquet_file := Some
               \<lparr>pq_columns = [''game_name'', ''expansion'', ''id'', ''text''], pq_index = None,
                pq_rows = rows\<rparr>\<rparr>)
          \<and> length rows = length cards
          \<and> (\<forall>i < length cards. card_row (cards ! i) = Inr (rows ! i))"
    by blast
next
  fix fs'
  assume run: "read_cards_json lib fs = (None, fs')"
  from run [unfolded run_succeeds_iff] assms obtain n rows P C P' C'
    where n: "length cards = n"
      and rows: "map (row_at (PList cards)) [0..<n] = map Inr rows"
      and P: "write_column lib P = Inr P'" and C: "write_column lib C = Inr C'"
      and fs': "fs' = fs\<lparr>parquet_file := Some
           \<lparr>pq_columns = [''game_name'', ''expansion'', ''id'', ''text''], pq_index = None,
            pq_rows = rows_of n [map (\<lambda>r. r ! 0) rows, P', C', map (\<lambda>r. r ! 3) rows]\<rparr>\<rparr>"
    by auto
  let ?rows = "rows_of n [map (\<lambda>r. r ! 0) rows, P', C', map (\<lambda>r. r ! 3) rows]"
  from rows have len: "length rows = n"
    by (metis length_map length_upt minus_nat.diff_0)
  have "\<exists>p c t. card_text (cards ! i) = Inr t \<and> ?rows ! i = [PStr ''Arkham Horror'', p, c, PStr t]"
    if "i < length cards" for i
  proof -
    from that n rows len have "row_at (PList cards) i = Inr (rows ! i)"
      by (metis add_0 length_map nth_map nth_upt)
    from row_at_shape [OF this] that obtain p c t where "card_text (cards ! i) = Inr t"
      "rows ! i = [PStr ''Arkham Horror'', p, c, PStr t]"
      by (auto simp: seq_index_def)
    with that n len show ?thesis
      by (simp add: rows_of_nth)
  qed
  with fs' n show "\<exists>rows. parquet_file fs' = Some
               \<lparr>pq_columns = [''game_name'', ''expansion'', ''id'', ''text''], pq_index = None,
                pq_rows = rows\<rparr>
          \<and> length rows = length cards
          \<and> (\<forall>i < length cards. \<exists>p c t. card_text (cards ! i) = Inr t
                \<and> rows ! i = [PStr ''Arkham Horror'', p, c, PStr t])"
    by (auto simp: rows_of_length)
qed

theorem rows_preserved_witness:
  "list_all valid_card
      [PDict [(''pack_name'', PStr ''Core Set''), (''code'', PStr ''01001'')],
       PDict [(''code'', PStr ''01002''), (''pack_name'', PStr ''Core Set'')]]
   \<and> uniform (values_of ''pack_name''
      [PDict [(''pack_name'', PStr ''Core Set''), (''code'', PStr ''01001'')],
       PDict [(''code'', PStr ''01002''), (''pack_name'', PStr ''Core Set'')]])
   \<and> uniform (values_of ''code''
      [PDict [(''pack_name'', PStr ''Core Set''), (''code'', PStr ''01001'')],
       PDict [(''code'', PStr ''01002''), (''pack_name'', PStr ''Core Set'')]])
   \<and> read_cards_json unsupported
         \<lparr>json_data = Document (PList
            [PDict [(''pack_name'', PStr ''Core Set''), (''code'', PStr ''01001'')],
             PDict [(''code'', PStr ''01002''), (''pack_name'', PStr ''Core Set'')]]),
          parquet_file = None\<rparr> =
        (None,
         \<lparr>json_data = Document (PList
            [PDict [(''pack_name'', PStr ''Core Set''), (''code'', PStr ''01001'')],
             PDict [(''code'', PStr ''01002''), (''pack_name'', PStr ''Core Set'')]]),
          parquet_file = Some \<lparr>pq_columns = [''game_name'', ''expansion'', ''id'', ''text''],
            pq_index = None,
            pq_rows =
              [[PStr ''Arkham Horror'', PStr ''Core Set'', PStr ''01001'',
                PStr ''Game Name : Arkham Horror, pack_name : Core Set, code : 01001''],
               [PStr ''Arkham Horror'', PStr ''Core Set'', PStr ''01002'',
                PStr ''Game Name : Arkham Horror, code : 01002, pack_name : Core Set'']]\<rparr>\<rparr>)"
proof -
  let ?A = "PDict [(''pack_name'', PStr ''Core Set''), (''code'', PStr ''01001'')]"
  let ?B = "PDict [(''code'', PStr ''01002''), (''pack_name'', PStr ''Core Set'')]"
  let ?fs = "\<lparr>json_data = Document (PList [?A, ?B]), parquet_file = None\<rparr>"
  have str: "list_all valid_card [?A, ?B] \<and> uniform (values_of ''pack_name'' [?A, ?B])
      \<and> uniform (values_of ''code'' [?A, ?B])"
    by code_simp
  have doc: "json_data ?fs = Document (PList [?A, ?B])" by simp
  from rows_preserved [OF doc, of unsupported] str obtain rows
    where run: "read_cards_json unsupported ?fs =
        (None, ?fs\<lparr>parquet_file := Some
          \<lparr>pq_columns = [''game_name'', ''expansion'', ''id'', ''text''],
          pq_index = None,
          pq_rows = rows\<rparr>\<rparr>)"
      and len: "length rows = 2"
      and nth: "\<forall>i < 2. card_row ([?A, ?B] ! i) = Inr (rows ! i)"
    by auto
  have a: "card_row ?A = Inr [PStr ''Arkham Horror'', PStr ''Core Set'', PStr ''01001'',
      PStr ''Game Name : Arkham Horror, pack_name : Core Set, code : 01001'']"
    by code_simp
  have b: "card_row ?B = Inr [PStr ''Arkham Horror'', PStr ''Core Set'', PStr ''01002'',
      PStr ''Game Name : Arkham Horror, code : 01002, pack_name : Core Set'']"
    by code_simp
  from nth have "card_row ?A = Inr (rows ! 0)" "card_row ?B = Inr (rows ! 1)"
    by (auto dest: spec [of _ 0] spec [of _ 1])
  with a b have "rows ! 0 = [PStr ''Arkham Horror'', PStr ''Core Set'', PStr ''01001'',
      PStr ''Game Name : Arkham Horror, pack_name : Core Set, code : 01001'']"
    "rows ! 1 = [PStr ''Arkham Horror'', PStr ''Core Set'', PStr ''01002'',
      PStr ''Game Name : Arkham Horror, code : 01002, pack_name : Core Set'']"
    by simp_all
  with len have "rows =
     [[PStr ''Arkham Horror'', PStr ''Core Set'', PStr ''01001'',
       PStr ''Game Name : Arkham Horror, pack_name : Core Set, code : 01001''],
      [PStr ''Arkham Horror'', PStr ''Core Set'', PStr ''01002'',
       PStr ''Game Name : Arkham Horror, code : 01002, pack_name : Core Set'']]"
    by (cases rows; cases "tl rows") auto
  with run str show ?thesis by simp
qed

theorem rows_preserved_counterexample:
  "valid_card (PDict [(''pack_name'', PStr ''Core Set''), (''code'', PStr ''01001'')])
   \<and> valid_card (PDict [(''pack_name'', PStr ''Core Set''), (''code'', PInt 1002)])
   \<and> read_cards_json unsupported
     \<lparr>json_data = Document (PList
        [PDict [(''pack_name'', PStr ''Core Set''), (''code'', PStr ''01001'')],
         PDict [(''pack_name'', PStr ''Core Set''), (''code'', PInt 1002)]]),
      parquet_file = None\<rparr> =
   (Some ArrowError,
    \<lparr>json_data = Document (PList
        [PDict [(''pack_name'', PStr ''Core Set''), (''code'', PStr ''01001'')],
         PDict [(''pack_name'', PStr ''Core Set''), (''code'', PInt 1002)]]),
      parquet_file = None\<rparr>)"
  using mixed_run [of unsupported] by simp

section \<open>Excluded keys\<close>

text \<open>
  C2. A key of the exclusion set is skipped together with its value: the text of a record
  is the text of the same record without that entry, so the entry contributes no
  \<open>, key : value\<close> fragment.
\<close>

theorem excluded_key_skipped:
  assumes "k \<in> {''deck_requirements'', ''deck_options'', ''double_sided'', ''octgn_id'', ''url'',
      ''imagesrc'', ''backimagesrc'', ''duplicated_by'', ''alternated_by'', ''illustrator'',
      ''errata_date'', ''restrictions'', ''spoiler''}"
  shows "card_text (PDict (xs @ (k, v) # ys)) = card_text (PDict (xs @ ys))"
proof -
  let ?d = "PDict (xs @ (k, v) # ys)"
  let ?keys = "map (\<lambda>kv. PStr (fst kv))"
  from assms have k: "k \<in> set excluded_keys"
    unfolding excluded_keys_def by simp
  have same: "\<forall>k'. k' \<notin> set excluded_keys \<longrightarrow> map_of (xs @ (k, v) # ys) k' = map_of (xs @ ys) k'"
    using k by (auto simp: map_add_def split: option.splits)
  have "text_loop ?d (?keys (xs @ (k, v) # ys)) ctext = text_loop ?d (?keys (xs @ ys)) ctext" for ctext
    using k by (simp add: text_loop_append split: sum.splits)
  then show ?thesis
    unfolding card_text_def using text_loop_cong [OF same] by simp
qed

theorem excluded_key_skipped_witness:
  "card_text (PDict ([(''name'', PStr ''Roland Banks'')] @ (''spoiler'', PBool True) # [(''code'', PStr ''01001'')]))
     = card_text (PDict ([(''name'', PStr ''Roland Banks'')] @ [(''code'', PStr ''01001'')]))
   \<and> card_text (PDict ([(''name'', PStr ''Roland Banks'')] @ (''spoiler'', PBool True) # [(''code'', PStr ''01001'')]))
     = Inr ''Game Name : Arkham Horror, name : Roland Banks, code : 01001''"
proof -
  have "card_text (PDict ([(''name'', PStr ''Roland Banks'')] @ [(''code'', PStr ''01001'')]))
     = Inr ''Game Name : Arkham Horror, name : Roland Banks, code : 01001''"
    by code_simp
  with excluded_key_skipped [of "''spoiler''" "[(''name'', PStr ''Roland Banks'')]" "PBool True"
      "[(''code'', PStr ''01001'')]"]
  show ?thesis by simp
qed

section \<open>Bold markup\<close>

text \<open>
  C3, as amended. The text of a record contains \<open><b>\<close> exactly when a key that is kept
  contains it, or the string of a value that is kept still contains it after the pass
  that removes \<open><b>\<close>, the pass that removes \<open></b>\<close> and the trim; the same holds of
  \<open></b>\<close>. A value keeps neither tag unless a tag in it stands glued behind an
  unfinished tag, so \<open><i>Forced</i> - <b>Fight.</b> x < 3\<close> comes out without bold
  markup. The claim as stated, for every value, fails: \<open>replace\<close> passes once over the
  value and does not look at what it has joined, so \<open><<b>b>\<close> leaves \<open><b>\<close>, and a
  key is never stripped.
\<close>

theorem markup_stripped:
  assumes "distinct (map fst kvs)"
  shows "\<exists>t. card_text (PDict kvs) = Inr t
     \<and> (sublist ''<b>'' t \<longleftrightarrow>
          (\<exists>(k, v) \<in> set kvs. k \<notin> set excluded_keys
             \<and> (sublist ''<b>'' k \<or> sublist ''<b>'' (clean_value (py_str v)))))
     \<and> (sublist ''</b>'' t \<longleftrightarrow>
          (\<exists>(k, v) \<in> set kvs. k \<notin> set excluded_keys
             \<and> (sublist ''</b>'' k \<or> sublist ''</b>'' (clean_value (py_str v)))))
     \<and> (\<forall>(k, v) \<in> set kvs. \<not> glued (py_str v) \<longrightarrow>
          \<not> sublist ''<b>'' (clean_value (py_str v))
          \<and> \<not> sublist ''</b>'' (clean_value (py_str v)))"
proof -
  obtain t where t: "card_text (PDict kvs) = Inr t"
    using card_text_dict_total by blast
  note iff = text_sublist_iff [OF assms t]
  have "sublist ''<b>'' t \<longleftrightarrow>
          (\<exists>(k, v) \<in> set kvs. k \<notin> set excluded_keys
             \<and> (sublist ''<b>'' k \<or> sublist ''<b>'' (clean_value (py_str v))))"
    by (rule iff) simp
  moreover have "sublist ''</b>'' t \<longleftrightarrow>
          (\<exists>(k, v) \<in> set kvs. k \<notin> set excluded_keys
             \<and> (sublist ''</b>'' k \<or> sublist ''</b>'' (clean_value (py_str v))))"
    by (rule iff) simp
  moreover have "\<forall>(k, v) \<in> set kvs. \<not> glued (py_str v) \<longrightarrow>
          \<not> sublist ''<b>'' (clean_value (py_str v))
          \<and> \<not> sublist ''</b>'' (clean_value (py_str v))"
    using clean_value_no_tag by blast
  ultimately show ?thesis
    using t by blast
qed

theorem markup_stripped_witness:
  "\<not> glued (py_str (PStr ''<i>Forced</i> - <b>Fight.</b> x < 3''))
   \<and> card_text (PDict [(''text'', PStr ''<i>Forced</i> - <b>Fight.</b> x < 3''), (''url'', PStr ''<<b>b>'')])
     = Inr ''Game Name : Arkham Horror, text : <i>Forced</i> - Fight. x < 3''
   \<and> \<not> sublist ''<b>'' ''Game Name : Arkham Horror, text : <i>Forced</i> - Fight. x < 3''
   \<and> \<not> sublist ''</b>'' ''Game Name : Arkham Horror, text : <i>Forced</i> - Fight. x < 3''"
proof -
  let ?v = "PStr ''<i>Forced</i> - <b>Fight.</b> x < 3''"
  let ?kvs = "[(''text'', ?v), (''url'', PStr ''<<b>b>'')]"
  have d: "distinct (map fst ?kvs)" by simp
  from markup_stripped [OF d] obtain t
    where t: "card_text (PDict ?kvs) = Inr t"
      and op_iff: "sublist ''<b>'' t \<longleftrightarrow>
          (\<exists>(k, v) \<in> set ?kvs. k \<notin> set excluded_keys
             \<and> (sublist ''<b>'' k \<or> sublist ''<b>'' (clean_value (py_str v))))"
      and cl_iff: "sublist ''</b>'' t \<longleftrightarrow>
          (\<exists>(k, v) \<in> set ?kvs. k \<notin> set excluded_keys
             \<and> (sublist ''</b>'' k \<or> sublist ''</b>'' (clean_value (py_str v))))"
      and clean: "\<forall>(k, v) \<in> set ?kvs. \<not> glued (py_str v) \<longrightarrow>
          \<not> sublist ''<b>'' (clean_value (py_str v))
          \<and> \<not> sublist ''</b>'' (clean_value (py_str v))"
    by blast
  have g: "\<not> glued (py_str ?v)" by code_simp
  with clean have v: "\<not> sublist ''<b>'' (clean_value (py_str ?v))"
    "\<not> sublist ''</b>'' (clean_value (py_str ?v))"
    by simp_all
  have k: "\<not> sublist ''<b>'' ''text''" "\<not> sublist ''</b>'' ''text''" "''url'' \<in> set excluded_keys"
    by code_simp+
  from op_iff v(1) k have "\<not> sublist ''<b>'' t" by simp
  moreover from cl_iff v(2) k have "\<not> sublist ''</b>'' t" by simp
  moreover have "card_text (PDict ?kvs) = Inr ''Game Name : Arkham Horror, text : <i>Forced</i> - Fight. x < 3''"
    by code_simp
  ultimately show ?thesis using t g by simp
qed

theorem markup_stripped_counterexample:
  "sublist ''<b>'' (py_str (PStr ''<<b>b>''))
   \<and> card_text (PDict [(''name'', PStr ''<<b>b>'')]) = Inr ''Game Name : Arkham Horror, name : <b>''
   \<and> sublist ''<b>'' ''Game Name : Arkham Horror, name : <b>''
   \<and> sublist ''</b>'' (py_str (PStr ''<b>Elder Sign</b>''))
   \<and> card_text (PDict [(''</b>'', PStr ''<b>Elder Sign</b>'')])
       = Inr ''Game Name : Arkham Horror, </b> : Elder Sign''
   \<and> sublist ''</b>'' ''Game Name : Arkham Horror, </b> : Elder Sign''"
  by code_simp

section \<open>The \<open>expansion\<close> and \<open>id\<close> columns\<close>

text \<open>
  C4, as amended. On an array whose \<open>pack_name\<close> and \<open>code\<close> values are strings or
  64-bit integers, a run that writes the file holds in row \<open>i\<close> under \<open>expansion\<close> the
  value element \<open>i\<close> has under \<open>pack_name\<close> and under \<open>id\<close> the value it has under
  \<open>code\<close>, as they are: a string stays the same string, with its markup and its
  surrounding blanks, and an integer stays the integer. The claim as stated, with the
  values as strings, fails: \<open>str\<close> is applied to neither value, so the code \<open>7\<close>
  gives the id \<open>7\<close>, which is not the string \<open>'7'\<close>.
\<close>

theorem columns_verbatim:
  assumes "json_data fs = Document (PList cards)"
    and "list_all (card_with plain) cards"
    and "read_cards_json lib fs = (None, fs')"
    and "i < length cards"
  shows "\<exists>kvs p c t pq. cards ! i = PDict kvs
     \<and> map_of kvs ''pack_name'' = Some p \<and> map_of kvs ''code'' = Some c
     \<and> parquet_file fs' = Some pq
     \<and> pq_columns pq = [''game_name'', ''expansion'', ''id'', ''text'']
     \<and> pq_rows pq ! i = [PStr ''Arkham Horror'', p, c, PStr t]"
proof -
  from plain_run [OF assms(1-3)] obtain rows where rows: "map card_row cards = map Inr rows"
    and fs': "fs' = fs\<lparr>parquet_file := Some
          \<lparr>pq_columns = [''game_name'', ''expansion'', ''id'', ''text''], pq_index = None,
           pq_rows = rows\<rparr>\<rparr>"
    by blast
  have "card_row (cards ! i) = Inr (rows ! i)"
    using rows assms(4) by (metis length_map nth_map)
  with fs' show ?thesis
    using card_row_Inr [of "cards ! i" "rows ! i"] by auto
qed

theorem columns_verbatim_witness:
  "read_cards_json unsupported
     \<lparr>json_data = Document (PList
        [PDict [(''pack_name'', PStr '' <b>Core Set</b> ''), (''code'', PInt 7)]]),
      parquet_file = None\<rparr> =
   (None,
    \<lparr>json_data = Document (PList
        [PDict [(''pack_name'', PStr '' <b>Core Set</b> ''), (''code'', PInt 7)]]),
     parquet_file = Some
       \<lparr>pq_columns = [''game_name'', ''expansion'', ''id'', ''text''],
        pq_index = None,
        pq_rows = [[PStr ''Arkham Horror'', PStr '' <b>Core Set</b> '', PInt 7,
          PStr ''Game Name : Arkham Horror, pack_name : Core Set, code : 7'']]\<rparr>\<rparr>)
   \<and> (\<exists>kvs p c t pq.
        [PDict [(''pack_name'', PStr '' <b>Core Set</b> ''), (''code'', PInt 7)]] ! 0 = PDict kvs
        \<and> map_of kvs ''pack_name'' = Some p \<and> map_of kvs ''code'' = Some c
        \<and> parquet_file
             \<lparr>json_data = Document (PList
                [PDict [(''pack_name'', PStr '' <b>Core Set</b> ''), (''code'', PInt 7)]]),
              parquet_file = Some
                \<lparr>pq_columns = [''game_name'', ''expansion'', ''id'', ''text''],
                 pq_index = None,
                 pq_rows = [[PStr ''Arkham Horror'', PStr '' <b>Core Set</b> '', PInt 7,
                   PStr ''Game Name : Arkham Horror, pack_name : Core Set, code : 7'']]\<rparr>\<rparr> = Some pq
        \<and> pq_columns pq = [''game_name'', ''expansion'', ''id'', ''text'']
        \<and> pq_rows pq ! 0 = [PStr ''Arkham Horror'', p, c, PStr t])"
proof -
  let ?cards = "[PDict [(''pack_name'', PStr '' <b>Core Set</b> ''), (''code'', PInt 7)]]"
  let ?fs = "\<lparr>json_data = Document (PList ?cards), parquet_file = None\<rparr>"
  have doc: "json_data ?fs = Document (PList ?cards)" by simp
  have plain: "list_all (card_with plain) ?cards" by code_simp
  have run: "read_cards_json unsupported ?fs =
     (None,
      \<lparr>json_data = Document (PList ?cards),
       parquet_file = Some
         \<lparr>pq_columns = [''game_name'', ''expansion'', ''id'', ''text''],
          pq_index = None,
          pq_rows = [[PStr ''Arkham Horror'', PStr '' <b>Core Set</b> '', PInt 7,
            PStr ''Game Name : Arkham Horror, pack_name : Core Set, code : 7'']]\<rparr>\<rparr>)"
    by code_simp
  have lt: "0 < length ?cards" by simp
  show ?thesis
    by (rule conjI [OF run columns_verbatim [OF doc plain run lt]])
qed

theorem columns_verbatim_counterexample:
  "read_cards_json unsupported
     \<lparr>json_data = Document (PList [PDict [(''pack_name'', PStr ''Core Set''), (''code'', PInt 7)]]),
      parquet_file = None\<rparr> =
   (None,
    \<lparr>json_data = Document (PList [PDict [(''pack_name'', PStr ''Core Set''), (''code'', PInt 7)]]),
     parquet_file = Some
       \<lparr>pq_columns = [''game_name'', ''expansion'', ''id'', ''text''],
        pq_index = None,
        pq_rows = [[PStr ''Arkham Horror'', PStr ''Core Set'', PInt 7,
          PStr ''Game Name : Arkham Horror, pack_name : Core Set, code : 7'']]\<rparr>\<rparr>)
   \<and> py_str (PInt 7) = ''7''
   \<and> PInt 7 \<noteq> PStr ''7''"
proof -
  have "py_str (PInt 7) = ''7''" by code_simp
  with int_run [of unsupported] show ?thesis by simp
qed

section \<open>The constant prefix\<close>

text \<open>
  C5. Every row a run writes has a text that begins with \<open>Game Name : Arkham Horror\<close>
  (and \<open>Arkham Horror\<close> as its game name).
\<close>

theorem text_prefix:
  assumes "read_cards_json lib fs = (None, fs')" and "parquet_file fs' = Some pq"
    and "row \<in> set (pq_rows pq)"
  shows "\<exists>p c t. row = [PStr ''Arkham Horror'', p, c, PStr t]
     \<and> prefix ''Game Name : Arkham Horror'' t"
proof -
  from run_rows [OF assms(1)] assms(2) obtain n
    where len: "length (pq_rows pq) = n"
      and nth: "\<forall>i < n. \<exists>crd p c t. card_text crd = Inr t
          \<and> pq_rows pq ! i = [PStr ''Arkham Horror'', p, c, PStr t]"
    by fastforce
  from assms(3) len obtain i where "i < n" "pq_rows pq ! i = row"
    by (auto simp: in_set_conv_nth)
  with nth show ?thesis
    using card_text_prefix by blast
qed

theorem text_prefix_witness:
  "read_cards_json unsupported
     \<lparr>json_data = Document (PList
        [PDict [(''code'', PStr ''01001''), (''pack_name'', PStr ''Core Set''),
                (''name'', PStr ''Roland Banks''), (''spoiler'', PBool True)]]),
      parquet_file = None\<rparr> =
   (None,
    \<lparr>json_data = Document (PList
        [PDict [(''code'', PStr ''01001''), (''pack_name'', PStr ''Core Set''),
                (''name'', PStr ''Roland Banks''), (''spoiler'', PBool True)]]),
     parquet_file = Some
       \<lparr>pq_columns = [''game_name'', ''expansion'', ''id'', ''text''],
        pq_index = None,
        pq_rows = [[PStr ''Arkham Horror'', PStr ''Core Set'', PStr ''01001'',
          PStr ''Game Name : Arkham Horror, code : 01001, pack_name : Core Set, name : Roland Banks'']]\<rparr>\<rparr>)
   \<and> (\<exists>p c t.
        [PStr ''Arkham Horror'', PStr ''Core Set'', PStr ''01001'',
          PStr ''Game Name : Arkham Horror, code : 01001, pack_name : Core Set, name : Roland Banks'']
        = [PStr ''Arkham Horror'', p, c, PStr t]
        \<and> prefix ''Game Name : Arkham Horror'' t)"
proof -
  let ?row = "[PStr ''Arkham Horror'', PStr ''Core Set'', PStr ''01001'',
          PStr ''Game Name : Arkham Horror, code : 01001, pack_name : Core Set, name : Roland Banks'']"
  let ?pq = "\<lparr>pq_columns = [''game_name'', ''expansion'', ''id'', ''text''], pq_index = None, pq_rows = [?row]\<rparr>"
  let ?doc = "Document (PList
        [PDict [(''code'', PStr ''01001''), (''pack_name'', PStr ''Core Set''),
                (''name'', PStr ''Roland Banks''), (''spoiler'', PBool True)]])"
  have run: "read_cards_json unsupported \<lparr>json_data = ?doc, parquet_file = None\<rparr> =
      (None, \<lparr>json_data = ?doc, parquet_file = Some ?pq\<rparr>)"
    by code_simp
  have pf: "parquet_file \<lparr>json_data = ?doc, parquet_file = Some ?pq\<rparr> = Some ?pq"
    by simp
  have row: "?row \<in> set (pq_rows ?pq)"
    by simp
  show ?thesis
    by (rule conjI [OF run text_prefix [OF run pf row]])
qed

section \<open>Failing runs\<close>




section \<open>The example of the specification\<close>

text \<open>
  C7. The array with the one card \<open>Roland Banks\<close> gives exactly one row: game name
  \<open>Arkham Horror\<close>, expansion \<open>Core Set\<close>, id \<open>01001\<close> and the text
  \<open>Game Name : Arkham Horror, code : 01001, pack_name : Core Set, name : Roland Banks\<close>;
  \<open>spoiler\<close> is left out, \<open>code\<close> and \<open>pack_name\<close> are in the text too, in the
  record's key order.
\<close>

theorem example_row:
  "read_cards_json lib
     \<lparr>json_data = Document (PList
        [PDict [(''code'', PStr ''01001''), (''pack_name'', PStr ''Core Set''),
                (''name'', PStr ''Roland Banks''), (''spoiler'', PBool True)]]),
      parquet_file = old\<rparr> =
   (None,
    \<lparr>json_data = Document (PList
        [PDict [(''code'', PStr ''01001''), (''pack_name'', PStr ''Core Set''),
                (''name'', PStr ''Roland Banks''), (''spoiler'', PBool True)]]),
     parquet_file = Some
       \<lparr>pq_columns = [''game_name'', ''expansion'', ''id'', ''text''],
        pq_index = None,
        pq_rows = [[PStr ''Arkham Horror'', PStr ''Core Set'', PStr ''01001'',
          PStr ''Game Name : Arkham Horror, code : 01001, pack_name : Core Set, name : Roland Banks'']]\<rparr>\<rparr>)"
  by code_simp

section \<open>The empty array\<close>

text \<open>
  C8. On an empty array the run succeeds and writes a table of no rows with exactly the
  four columns \<open>game_name\<close>, \<open>expansion\<close>, \<open>id\<close>, \<open>text\<close> and no index column.
\<close>

theorem empty_array:
  "read_cards_json lib \<lparr>json_data = Document (PList []), parquet_file = old\<rparr> =
   (None,
    \<lparr>json_data = Document (PList []),
     parquet_file = Some \<lparr>pq_columns = [''game_name'', ''expansion'', ''id'', ''text''],
       pq_index = None,
       pq_rows = []\<rparr>\<rparr>)"
  by (simp add: read_cards_json_def build_table_def DataFrame_def to_parquet_def
      write_column_def rows_of_def)

section \<open>Keys are copied, values are cleaned\<close>

text \<open>
  C9. For a key that is kept, the text of the record is the text of the entries before it,
  then \<open>, \<close>, the key as it is, \<open> : \<close>, the value's string after one \<open>replace\<close> of
  \<open><b>\<close>, one of \<open></b>\<close> and \<open>strip\<close>, then what the entries after it add. Nothing is
  done to the key: no markup is removed from it, it is not trimmed and not escaped.
\<close>

theorem key_verbatim_value_cleaned:
  assumes "distinct (map fst (xs @ (k, v) # ys))" and "k \<notin> set excluded_keys"
  shows "\<exists>t rest. card_text (PDict xs) = Inr t
     \<and> card_text (PDict ys) = Inr (''Game Name : Arkham Horror'' @ rest)
     \<and> card_text (PDict (xs @ (k, v) # ys)) =
         Inr (t @ '', '' @ k @ '' : ''
           @ strip (py_replace (py_replace (py_str v) ''<b>'' []) ''</b>'' []) @ rest)"
proof -
  from assms(1) have "distinct (map fst xs)" "distinct (map fst ys)"
    by simp_all
  with assms show ?thesis
    by (simp add: card_text_dict clean_value_def)
qed

theorem key_verbatim_value_cleaned_witness:
  "distinct (map fst ([(''code'', PStr ''01001'')] @ (''<b>, '', PStr '' x<<b>b></b> '') # []))
   \<and> card_text (PDict ([(''code'', PStr ''01001'')] @ (''<b>, '', PStr '' x<<b>b></b> '') # []))
     = Inr ''Game Name : Arkham Horror, code : 01001, <b>,  : x<b>''"
proof -
  have d: "distinct (map fst ([(''code'', PStr ''01001'')] @ (''<b>, '', PStr '' x<<b>b></b> '') # []))"
    by simp
  have k: "''<b>, '' \<notin> set excluded_keys"
    by (simp add: excluded_keys_def)
  from key_verbatim_value_cleaned [OF d k] obtain t rest
    where t: "card_text (PDict [(''code'', PStr ''01001'')]) = Inr t"
      and rest: "card_text (PDict []) = Inr (''Game Name : Arkham Horror'' @ rest)"
      and all: "card_text (PDict ([(''code'', PStr ''01001'')] @ (''<b>, '', PStr '' x<<b>b></b> '') # [])) =
         Inr (t @ '', '' @ ''<b>, '' @ '' : ''
           @ strip (py_replace (py_replace (py_str (PStr '' x<<b>b></b> '')) ''<b>'' []) ''</b>'' []) @ rest)"
    by blast
  have "card_text (PDict [(''code'', PStr ''01001'')]) = Inr ''Game Name : Arkham Horror, code : 01001''"
    by code_simp
  with t have t': "t = ''Game Name : Arkham Horror, code : 01001''" by simp
  have "card_text (PDict []) = Inr ''Game Name : Arkham Horror''"
    by code_simp
  with rest have rest': "rest = []" by simp
  have "strip (py_replace (py_replace (py_str (PStr '' x<<b>b></b> '')) ''<b>'' []) ''</b>'' []) = ''x<b>''"
    by code_simp
  with all t' rest' d show ?thesis by simp
qed

end
